theory Spec2Isabelle
  imports Main "HOL-Library.Word"
begin

unbundle bit_operations_syntax

section \<open>Bytes, streams and errors\<close>

text \<open>
  The codec of \<^verbatim>\<open>nbon.h\<close> borrows a \<^verbatim>\<open>std::ostream\<close> or a \<^verbatim>\<open>std::istream\<close>. An
  output stream is the list of bytes written so far (a write appends); an input stream is
  the list of bytes not read yet (\<^verbatim>\<open>get\<close> removes the head, \<^verbatim>\<open>peek\<close> looks at it, and
  the empty list is end of input).
\<close>

type_synonym byte = "8 word"
type_synonym ostream = "byte list"
type_synonym istream = "byte list"

text \<open>
  \<^verbatim>\<open>LogicError\<close> and \<^verbatim>\<open>ParseError\<close> are the two exception classes of the header; the
  parse error carries the text given to its constructor. \<^verbatim>\<open>UndefinedShift\<close> is not an
  exception: \<^verbatim>\<open>nextLEB128\<close> shifts a 64-bit value by 7 more bits for each group, and C++
  leaves a shift by 64 bits or more undefined, so the model ends such a run with an
  outcome of its own instead of choosing a value for it.
\<close>

datatype error = LogicError | ParseError string | UndefinedShift

text \<open>
  A \<^verbatim>\<open>Writer\<close> and a \<^verbatim>\<open>Reader\<close> hold the same two members: the pointer to the shared
  stream and the flag \<^verbatim>\<open>ready_\<close> (\<open>ready\<close> here: a name cannot end
  in an underscore). The stream is passed beside the handle, so that two handles share it,
  and the handle is its flag.
\<close>

record handle =
  ready :: bool

type_synonym Writer = handle
type_synonym Reader = handle

text \<open>\<^verbatim>\<open>explicit Writer(std::ostream *os)\<close> and \<^verbatim>\<open>explicit Reader(std::istream *is)\<close>:
  \<^verbatim>\<open>ready_ = true\<close> is the member's default.\<close>

definition new_handle :: handle where
  "new_handle = \<lparr>ready = True\<rparr>"

text \<open>
  An operation runs on the handle it is called on and on the stream, and ends with a value
  or with a thrown error; what it did to the handle and to the stream before throwing stays.
\<close>

type_synonym wstate = "Writer \<times> ostream"
type_synonym rstate = "Reader \<times> istream"

section \<open>Writer\<close>

text \<open>\<^verbatim>\<open>*os_ << (char)c\<close>\<close>

definition put :: "byte \<Rightarrow> wstate \<Rightarrow> wstate" where
  "put c s = (fst s, snd s @ [c])"

text \<open>\<^verbatim>\<open>Writer::writeLEB128\<close>: a do-while loop over \<^verbatim>\<open>num\<close>.\<close>

function writeLEB128 :: "64 word \<Rightarrow> wstate \<Rightarrow> wstate" where
  "writeLEB128 num s =
     (let hi = (if num > 0x7f then 0x80 else 0 :: byte);
          s' = put (hi OR ucast (num AND 0x7f)) s;
          num' = drop_bit 7 num
      in if num' \<noteq> 0 then writeLEB128 num' s' else s')"
  by pat_completeness auto
termination
proof (relation "measure (\<lambda>(num, s). unat num)")
  show "wf (measure (\<lambda>(num, s). unat num))" by simp
next
  fix num :: "64 word" and s :: wstate and x :: byte and xa :: wstate and xb :: "64 word"
  assume "xb = drop_bit 7 num" and "xb \<noteq> 0"
  then have nz: "drop_bit 7 num \<noteq> 0" by simp
  have "unat (drop_bit 7 num) = unat num div 128"
    by (simp add: drop_bit_eq_div unat_div)
  moreover have "unat (drop_bit 7 num) \<noteq> 0"
    using nz by (simp add: unat_eq_0)
  ultimately have "unat (drop_bit 7 num) < unat num" by simp
  then show "((xb, xa), num, s) \<in> measure (\<lambda>(num, s). unat num)"
    using \<open>xb = drop_bit 7 num\<close> by simp
qed

declare writeLEB128.simps [simp del]

text \<open>The bytes \<^verbatim>\<open>writeLEB128\<close> writes for \<open>n\<close>: what it appends to an empty stream.\<close>

definition varint :: "64 word \<Rightarrow> byte list" where
  "varint n = snd (writeLEB128 n (new_handle, []))"

text \<open>\<^verbatim>\<open>Writer::checkReady\<close> throws \<^verbatim>\<open>LogicError\<close> when the handle is not ready.\<close>

definition checkReady :: "handle \<times> 'a \<Rightarrow> (error + unit) \<times> handle \<times> 'a" where
  "checkReady s = (if \<not> ready (fst s) then (Inl LogicError, s) else (Inr (), s))"

definition writeTrue :: "wstate \<Rightarrow> (error + unit) \<times> wstate" where
  "writeTrue s =
     (case checkReady s of
        (Inl e, s1) \<Rightarrow> (Inl e, s1)
      | (Inr _, s1) \<Rightarrow> (Inr (), put 0x54 s1))"

definition writeFalse :: "wstate \<Rightarrow> (error + unit) \<times> wstate" where
  "writeFalse s =
     (case checkReady s of
        (Inl e, s1) \<Rightarrow> (Inl e, s1)
      | (Inr _, s1) \<Rightarrow> (Inr (), put 0x46 s1))"

definition writeBool :: "bool \<Rightarrow> wstate \<Rightarrow> (error + unit) \<times> wstate" where
  "writeBool b s =
     (case checkReady s of
        (Inl e, s1) \<Rightarrow> (Inl e, s1)
      | (Inr _, s1) \<Rightarrow> (if b then writeTrue s1 else writeFalse s1))"

definition writeNull :: "wstate \<Rightarrow> (error + unit) \<times> wstate" where
  "writeNull s =
     (case checkReady s of
        (Inl e, s1) \<Rightarrow> (Inl e, s1)
      | (Inr _, s1) \<Rightarrow> (Inr (), put 0x4E s1))"

text \<open>\<^verbatim>\<open>*os_ << str\<close> on a \<^verbatim>\<open>const char *\<close> writes the bytes before the first NUL.\<close>

definition put_cstr :: "byte list \<Rightarrow> wstate \<Rightarrow> wstate" where
  "put_cstr str s = (fst s, snd s @ takeWhile (\<lambda>c. c \<noteq> 0) str)"

definition writeString :: "byte list \<Rightarrow> wstate \<Rightarrow> (error + unit) \<times> wstate" where
  "writeString str s =
     (case checkReady s of
        (Inl e, s1) \<Rightarrow> (Inl e, s1)
      | (Inr _, s1) \<Rightarrow> (Inr (), put 0 (put_cstr str (put 0x53 s1))))"

text \<open>
  \<^verbatim>\<open>writeFloat\<close> and \<^verbatim>\<open>writeDouble\<close> copy the argument's object representation into an
  unsigned integer with \<^verbatim>\<open>memcpy\<close> and only use that integer: a \<^verbatim>\<open>float\<close> is its 32-bit
  pattern here, a \<^verbatim>\<open>double\<close> its 64-bit pattern.
\<close>

definition writeFloat :: "32 word \<Rightarrow> wstate \<Rightarrow> (error + unit) \<times> wstate" where
  "writeFloat n s =
     (case checkReady s of
        (Inl e, s1) \<Rightarrow> (Inl e, s1)
      | (Inr _, s1) \<Rightarrow>
          (Inr (),
           put (ucast (drop_bit 24 (n AND 0xff000000)))
          (put (ucast (drop_bit 16 (n AND 0x00ff0000)))
          (put (ucast (drop_bit 8 (n AND 0x0000ff00)))
          (put (ucast (drop_bit 0 (n AND 0x000000ff)))
          (put 0x66 s1))))))"

definition writeDouble :: "64 word \<Rightarrow> wstate \<Rightarrow> (error + unit) \<times> wstate" where
  "writeDouble n s =
     (case checkReady s of
        (Inl e, s1) \<Rightarrow> (Inl e, s1)
      | (Inr _, s1) \<Rightarrow>
          (Inr (),
           put (ucast (drop_bit 56 (n AND 0xff00000000000000)))
          (put (ucast (drop_bit 48 (n AND 0x00ff000000000000)))
          (put (ucast (drop_bit 40 (n AND 0x0000ff0000000000)))
          (put (ucast (drop_bit 32 (n AND 0x000000ff00000000)))
          (put (ucast (drop_bit 24 (n AND 0x00000000ff000000)))
          (put (ucast (drop_bit 16 (n AND 0x0000000000ff0000)))
          (put (ucast (drop_bit 8 (n AND 0x000000000000ff00)))
          (put (ucast (drop_bit 0 (n AND 0x00000000000000ff)))
          (put 0x64 s1))))))))))"

text \<open>\<^verbatim>\<open>os_->write((const char *)data, length)\<close>; the buffer is the list, \<^verbatim>\<open>length\<close> its
  length, converted to \<^verbatim>\<open>uint64_t\<close>.\<close>

definition put_bytes :: "byte list \<Rightarrow> wstate \<Rightarrow> wstate" where
  "put_bytes data s = (fst s, snd s @ data)"

definition writeBinary :: "byte list \<Rightarrow> wstate \<Rightarrow> (error + unit) \<times> wstate" where
  "writeBinary data s =
     (case checkReady s of
        (Inl e, s1) \<Rightarrow> (Inl e, s1)
      | (Inr _, s1) \<Rightarrow>
          (Inr (), put_bytes data (writeLEB128 (word_of_nat (length data)) (put 0x42 s1))))"

text \<open>
  \<^verbatim>\<open>writeInt\<close> takes an \<^verbatim>\<open>int64_t\<close>: the comparisons are signed, the minimum is
  \<^verbatim>\<open>0x8000000000000000\<close>, and \<^verbatim>\<open>(uint64_t)max + 1\<close> is computed in unsigned arithmetic.
\<close>

definition int64_min :: "64 word" where
  "int64_min = 0x8000000000000000"

definition int64_max :: "64 word" where
  "int64_max = 0x7fffffffffffffff"

definition writeInt :: "64 word \<Rightarrow> wstate \<Rightarrow> (error + unit) \<times> wstate" where
  "writeInt num s =
     (case checkReady s of
        (Inl e, s1) \<Rightarrow> (Inl e, s1)
      | (Inr _, s1) \<Rightarrow>
          (if num = int64_min then (Inr (), writeLEB128 (int64_max + 1) (put 0x2D s1))
           else if num <s 0 then (Inr (), writeLEB128 (- num) (put 0x2D s1))
           else if num \<le>s 9 then (Inr (), put (0x30 + ucast num) s1)
           else (Inr (), writeLEB128 num (put 0x2B s1))))"

definition writeUInt :: "64 word \<Rightarrow> wstate \<Rightarrow> (error + unit) \<times> wstate" where
  "writeUInt num s =
     (case checkReady s of
        (Inl e, s1) \<Rightarrow> (Inl e, s1)
      | (Inr _, s1) \<Rightarrow>
          (if num \<le> 9 then (Inr (), put (0x30 + ucast num) s1)
           else (Inr (), writeLEB128 num (put 0x2B s1))))"



text \<open>
  \<^verbatim>\<open>writeArray\<close> and \<^verbatim>\<open>writeObject\<close> call \<^verbatim>\<open>func\<close> between the two tags. The callback
  gets the fresh child \<^verbatim>\<open>Writer(os_)\<close> (or an \<^verbatim>\<open>ObjectWriter(os_)\<close>, which holds the
  stream pointer only) and runs on the state it can reach: the stream, and the handle
  \<^verbatim>\<open>writeArray\<close> was called on, which a callback can capture by reference, as the test
  "Logic error checking" does. It returns or throws; there is no handler and no scope
  guard around the call, so what follows it runs only when it returns.
\<close>

definition writeArray :: "(Writer \<Rightarrow> wstate \<Rightarrow> (error + unit) \<times> wstate) \<Rightarrow> wstate \<Rightarrow> (error + unit) \<times> wstate" where
  "writeArray func s =
     (case checkReady s of
        (Inl e, s1) \<Rightarrow> (Inl e, s1)
      | (Inr _, s1) \<Rightarrow>
          (let s2 = put 0x5B s1;
               s3 = ((fst s2)\<lparr>ready := False\<rparr>, snd s2)
           in case func new_handle s3 of
                (Inl e, s4) \<Rightarrow> (Inl e, s4)
              | (Inr _, s4) \<Rightarrow> (Inr (), put 0x5D ((fst s4)\<lparr>ready := True\<rparr>, snd s4))))"

definition writeObject :: "(wstate \<Rightarrow> (error + unit) \<times> wstate) \<Rightarrow> wstate \<Rightarrow> (error + unit) \<times> wstate" where
  "writeObject func s =
     (case checkReady s of
        (Inl e, s1) \<Rightarrow> (Inl e, s1)
      | (Inr _, s1) \<Rightarrow>
          (let s2 = put 0x7B s1;
               s3 = ((fst s2)\<lparr>ready := False\<rparr>, snd s2)
           in case func s3 of
                (Inl e, s4) \<Rightarrow> (Inl e, s4)
              | (Inr _, s4) \<Rightarrow> (Inr (), put 0x7D ((fst s4)\<lparr>ready := True\<rparr>, snd s4))))"

text \<open>\<^verbatim>\<open>ObjectWriter::key\<close> writes the key and a NUL, and returns a fresh \<^verbatim>\<open>Writer(os_)\<close>.\<close>

definition ObjectWriter_key :: "byte list \<Rightarrow> wstate \<Rightarrow> Writer \<times> wstate" where
  "ObjectWriter_key key s = (new_handle, put 0 (put_cstr key s))"

text \<open>
  A call on another handle \<open>h\<close> of the same stream, as a callback makes on the child it
  was given: the operation runs on \<open>h\<close> and the stream, and the copy \<open>h\<close> is dropped.
\<close>

definition on_handle :: "handle \<Rightarrow> (handle \<times> 'a \<Rightarrow> 'r \<times> handle \<times> 'a) \<Rightarrow> handle \<times> 'a \<Rightarrow> 'r \<times> handle \<times> 'a" where
  "on_handle h op s = (case op (h, snd s) of (r, s1) \<Rightarrow> (r, (fst s, snd s1)))"

section \<open>Reader\<close>

text \<open>
  The tag bytes, as the characters of the source: \<open>0x54\<close> is \<^verbatim>\<open>'T'\<close>, \<open>0x46\<close> \<^verbatim>\<open>'F'\<close>,
  \<open>0x4E\<close> \<^verbatim>\<open>'N'\<close>, \<open>0x53\<close> \<^verbatim>\<open>'S'\<close>, \<open>0x42\<close> \<^verbatim>\<open>'B'\<close>, \<open>0x66\<close> \<^verbatim>\<open>'f'\<close>, \<open>0x64\<close> \<^verbatim>\<open>'d'\<close>,
  \<open>0x2B\<close> \<^verbatim>\<open>'+'\<close>, \<open>0x2D\<close> \<^verbatim>\<open>'-'\<close>, \<open>0x30\<close> to \<open>0x39\<close> \<^verbatim>\<open>'0'\<close> to \<^verbatim>\<open>'9'\<close>, \<open>0x5B\<close> \<^verbatim>\<open>'['\<close>,
  \<open>0x5D\<close> \<^verbatim>\<open>']'\<close>, \<open>0x7B\<close> \<^verbatim>\<open>'{'\<close>, \<open>0x7D\<close> \<^verbatim>\<open>'}'\<close>.
\<close>

text \<open>\<^verbatim>\<open>enum class Type\<close>; \<^verbatim>\<open>Type::INT\<close> is \<open>Type_INT\<close>, and so on.\<close>

datatype Type = Type_BOOL | Type_NIL | Type_STRING | Type_BINARY | Type_FLOAT | Type_DOUBLE | Type_INT | Type_UINT | Type_ARRAY | Type_OBJECT

text \<open>\<^verbatim>\<open>is_->get()\<close> and \<^verbatim>\<open>is_->peek()\<close>; \<open>None\<close> is \<^verbatim>\<open>EOF\<close>.\<close>

definition get :: "rstate \<Rightarrow> byte option \<times> rstate" where
  "get s = (case snd s of [] \<Rightarrow> (None, s) | c # cs \<Rightarrow> (Some c, (fst s, cs)))"

definition peek :: "rstate \<Rightarrow> byte option" where
  "peek s = (case snd s of [] \<Rightarrow> None | c # cs \<Rightarrow> Some c)"

definition Reader_hasNext :: "rstate \<Rightarrow> bool" where
  "Reader_hasNext s = (peek s \<noteq> None)"

text \<open>\<^verbatim>\<open>Reader::next\<close>\<close>

definition Reader_next :: "rstate \<Rightarrow> (error + byte) \<times> rstate" where
  "Reader_next s =
     (case get s of
        (None, s1) \<Rightarrow> (Inl (ParseError ''Unexpected EOF''), s1)
      | (Some ch, s1) \<Rightarrow> (Inr ch, s1))"

text \<open>
  \<^verbatim>\<open>Reader::nextLEB128\<close>: the do-while loop, with \<^verbatim>\<open>num\<close> and \<^verbatim>\<open>shift\<close> as arguments.
  \<^verbatim>\<open>shift\<close> is a \<^verbatim>\<open>uint64_t\<close> that grows by 7; the run ends before it passes 70, so a
  natural number holds it.
\<close>

function nextLEB128_loop :: "64 word \<Rightarrow> nat \<Rightarrow> rstate \<Rightarrow> (error + 64 word) \<times> rstate" where
  "nextLEB128_loop num shift s =
     (case Reader_next s of
        (Inl e, s1) \<Rightarrow> (Inl e, s1)
      | (Inr ch, s1) \<Rightarrow>
          if shift \<ge> 64 then (Inl UndefinedShift, s1)
          else
            let num' = num OR push_bit shift (ucast (ch AND 0x7f));
                shift' = shift + 7
            in if ch \<ge> 0x80 then nextLEB128_loop num' shift' s1 else (Inr num', s1))"
  by pat_completeness auto
termination
  by (relation "measure (\<lambda>(num, shift, s). length (snd s))")
     (auto simp: Reader_next_def get_def split: list.splits)

declare nextLEB128_loop.simps [simp del]

definition nextLEB128 :: "rstate \<Rightarrow> (error + 64 word) \<times> rstate" where
  "nextLEB128 s = nextLEB128_loop 0 0 s"

definition getType :: "rstate \<Rightarrow> (error + Type) \<times> rstate" where
  "getType s =
     (case checkReady s of
        (Inl e, s1) \<Rightarrow> (Inl e, s1)
      | (Inr _, s1) \<Rightarrow>
          (case peek s1 of
             None \<Rightarrow> (Inl (ParseError ''Unexpected EOF''), s1)
           | Some ch \<Rightarrow>
               if ch = 0x54 \<or> ch = 0x46 then (Inr Type_BOOL, s1)
               else if ch = 0x4E then (Inr Type_NIL, s1)
               else if ch = 0x66 then (Inr Type_FLOAT, s1)
               else if ch = 0x64 then (Inr Type_DOUBLE, s1)
               else if ch = 0x53 then (Inr Type_STRING, s1)
               else if ch = 0x42 then (Inr Type_BINARY, s1)
               else if ch = 0x2B \<or> (ch \<ge> 0x30 \<and> ch \<le> 0x39) then (Inr Type_UINT, s1)
               else if ch = 0x2D then (Inr Type_INT, s1)
               else if ch = 0x5B then (Inr Type_ARRAY, s1)
               else if ch = 0x7B then (Inr Type_OBJECT, s1)
               else (Inl (ParseError ''Unexpected character''), s1)))"

definition getBool :: "rstate \<Rightarrow> (error + bool) \<times> rstate" where
  "getBool s =
     (case checkReady s of
        (Inl e, s1) \<Rightarrow> (Inl e, s1)
      | (Inr _, s1) \<Rightarrow>
          (case get s1 of
             (ch, s2) \<Rightarrow>
               if ch = Some 0x54 then (Inr True, s2)
               else if ch = Some 0x46 then (Inr False, s2)
               else (Inl (ParseError (''getBool: Expected 'T' or 'F'' @ [CHR 0x27])), s2)))"

definition getNil :: "rstate \<Rightarrow> (error + unit) \<times> rstate" where
  "getNil s =
     (case checkReady s of
        (Inl e, s1) \<Rightarrow> (Inl e, s1)
      | (Inr _, s1) \<Rightarrow>
          (case get s1 of
             (ch, s2) \<Rightarrow>
               if ch \<noteq> Some 0x4E then (Inl (ParseError (''skipNil: Expected 'N'' @ [CHR 0x27])), s2)
               else (Inr (), s2)))"

text \<open>\<^verbatim>\<open>while ((ch = next())) s += ch;\<close>\<close>

function getString_loop :: "byte list \<Rightarrow> rstate \<Rightarrow> (error + byte list) \<times> rstate" where
  "getString_loop str s =
     (case Reader_next s of
        (Inl e, s1) \<Rightarrow> (Inl e, s1)
      | (Inr ch, s1) \<Rightarrow> if ch \<noteq> 0 then getString_loop (str @ [ch]) s1 else (Inr str, s1))"
  by pat_completeness auto
termination
  by (relation "measure (\<lambda>(str, s). length (snd s))")
     (auto simp: Reader_next_def get_def split: list.splits)

declare getString_loop.simps [simp del]

definition getString :: "rstate \<Rightarrow> (error + byte list) \<times> rstate" where
  "getString s =
     (case checkReady s of
        (Inl e, s1) \<Rightarrow> (Inl e, s1)
      | (Inr _, s1) \<Rightarrow>
          (case get s1 of
             (ch, s2) \<Rightarrow>
               if ch \<noteq> Some 0x53 then (Inl (ParseError (''getString: Expected 'S'' @ [CHR 0x27])), s2)
               else getString_loop [] s2))"

text \<open>\<^verbatim>\<open>while (next());\<close>\<close>

function skipString_loop :: "rstate \<Rightarrow> (error + unit) \<times> rstate" where
  "skipString_loop s =
     (case Reader_next s of
        (Inl e, s1) \<Rightarrow> (Inl e, s1)
      | (Inr ch, s1) \<Rightarrow> if ch \<noteq> 0 then skipString_loop s1 else (Inr (), s1))"
  by pat_completeness auto
termination
  by (relation "measure (\<lambda>s. length (snd s))")
     (auto simp: Reader_next_def get_def split: list.splits)

declare skipString_loop.simps [simp del]

definition skipString :: "rstate \<Rightarrow> (error + unit) \<times> rstate" where
  "skipString s =
     (case checkReady s of
        (Inl e, s1) \<Rightarrow> (Inl e, s1)
      | (Inr _, s1) \<Rightarrow>
          (case get s1 of
             (ch, s2) \<Rightarrow>
               if ch \<noteq> Some 0x53 then (Inl (ParseError (''skipString: Expected 'S'' @ [CHR 0x27])), s2)
               else skipString_loop s2))"

text \<open>
  \<^verbatim>\<open>while (bin.size() < size) bin.push_back(next());\<close> with \<^verbatim>\<open>size_t\<close> of 64 bits, so
  that the cast of the length is the identity; \<open>sz\<close> is \<^verbatim>\<open>size\<close>.
\<close>

function getBinary_loop :: "byte list \<Rightarrow> 64 word \<Rightarrow> rstate \<Rightarrow> (error + byte list) \<times> rstate" where
  "getBinary_loop bin sz s =
     (if length bin < unat sz then
        (case Reader_next s of
           (Inl e, s1) \<Rightarrow> (Inl e, s1)
         | (Inr ch, s1) \<Rightarrow> getBinary_loop (bin @ [ch]) sz s1)
      else (Inr bin, s))"
  by pat_completeness auto
termination
  by (relation "measure (\<lambda>(bin, sz, s). length (snd s))")
     (auto simp: Reader_next_def get_def split: list.splits)

declare getBinary_loop.simps [simp del]

definition getBinary :: "rstate \<Rightarrow> (error + byte list) \<times> rstate" where
  "getBinary s =
     (case checkReady s of
        (Inl e, s1) \<Rightarrow> (Inl e, s1)
      | (Inr _, s1) \<Rightarrow>
          (case get s1 of
             (ch, s2) \<Rightarrow>
               if ch \<noteq> Some 0x42 then (Inl (ParseError (''getString: Expected 'B'' @ [CHR 0x27])), s2)
               else
                 (case nextLEB128 s2 of
                    (Inl e, s3) \<Rightarrow> (Inl e, s3)
                  | (Inr sz, s3) \<Rightarrow> getBinary_loop [] sz s3)))"

text \<open>\<^verbatim>\<open>while (size > 0) { next(); size -= 1; }\<close>\<close>

function skipBinary_loop :: "64 word \<Rightarrow> rstate \<Rightarrow> (error + unit) \<times> rstate" where
  "skipBinary_loop sz s =
     (if sz > 0 then
        (case Reader_next s of
           (Inl e, s1) \<Rightarrow> (Inl e, s1)
         | (Inr ch, s1) \<Rightarrow> skipBinary_loop (sz - 1) s1)
      else (Inr (), s))"
  by pat_completeness auto
termination
  by (relation "measure (\<lambda>(sz, s). length (snd s))")
     (auto simp: Reader_next_def get_def split: list.splits)

declare skipBinary_loop.simps [simp del]

definition skipBinary :: "rstate \<Rightarrow> (error + unit) \<times> rstate" where
  "skipBinary s =
     (case checkReady s of
        (Inl e, s1) \<Rightarrow> (Inl e, s1)
      | (Inr _, s1) \<Rightarrow>
          (case get s1 of
             (ch, s2) \<Rightarrow>
               if ch \<noteq> Some 0x42 then (Inl (ParseError (''skipBinary: Expected 'B'' @ [CHR 0x27])), s2)
               else
                 (case nextLEB128 s2 of
                    (Inl e, s3) \<Rightarrow> (Inl e, s3)
                  | (Inr sz, s3) \<Rightarrow> skipBinary_loop sz s3)))"

text \<open>Sequencing for the straight-line readers: the first error ends the run.\<close>

definition bindE :: "('s \<Rightarrow> (error + 'a) \<times> 's) \<Rightarrow> ('a \<Rightarrow> 's \<Rightarrow> (error + 'b) \<times> 's) \<Rightarrow> 's \<Rightarrow> (error + 'b) \<times> 's" where
  "bindE m f s = (case m s of (Inl e, s1) \<Rightarrow> (Inl e, s1) | (Inr a, s1) \<Rightarrow> f a s1)"

definition getFloat :: "rstate \<Rightarrow> (error + 32 word) \<times> rstate" where
  "getFloat s =
     (case checkReady s of
        (Inl e, s1) \<Rightarrow> (Inl e, s1)
      | (Inr _, s1) \<Rightarrow>
          (case get s1 of
             (ch, s2) \<Rightarrow>
               if ch \<noteq> Some 0x66 then (Inl (ParseError (''nextFloat: Expected 'f'' @ [CHR 0x27])), s2)
               else
                 bindE Reader_next (\<lambda>c0. let n0 = 0 OR push_bit 0 (ucast c0) in
                 bindE Reader_next (\<lambda>c1. let n1 = n0 OR push_bit 8 (ucast c1) in
                 bindE Reader_next (\<lambda>c2. let n2 = n1 OR push_bit 16 (ucast c2) in
                 bindE Reader_next (\<lambda>c3. let n3 = n2 OR push_bit 24 (ucast c3) in
                 Pair (Inr n3))))) s2))"

definition getDouble :: "rstate \<Rightarrow> (error + 64 word) \<times> rstate" where
  "getDouble s =
     (case checkReady s of
        (Inl e, s1) \<Rightarrow> (Inl e, s1)
      | (Inr _, s1) \<Rightarrow>
          (case get s1 of
             (ch, s2) \<Rightarrow>
               if ch \<noteq> Some 0x64 then (Inl (ParseError (''nextDouble: Expected 'd'' @ [CHR 0x27])), s2)
               else
                 bindE Reader_next (\<lambda>c0. let n0 = 0 OR push_bit 0 (ucast c0) in
                 bindE Reader_next (\<lambda>c1. let n1 = n0 OR push_bit 8 (ucast c1) in
                 bindE Reader_next (\<lambda>c2. let n2 = n1 OR push_bit 16 (ucast c2) in
                 bindE Reader_next (\<lambda>c3. let n3 = n2 OR push_bit 24 (ucast c3) in
                 bindE Reader_next (\<lambda>c4. let n4 = n3 OR push_bit 32 (ucast c4) in
                 bindE Reader_next (\<lambda>c5. let n5 = n4 OR push_bit 40 (ucast c5) in
                 bindE Reader_next (\<lambda>c6. let n6 = n5 OR push_bit 48 (ucast c6) in
                 bindE Reader_next (\<lambda>c7. let n7 = n6 OR push_bit 56 (ucast c7) in
                 Pair (Inr n7))))))))) s2))"

text \<open>
  \<^verbatim>\<open>getInt\<close> returns an \<^verbatim>\<open>int64_t\<close>, here the 64-bit word that \<open>sint\<close> reads:
  \<^verbatim>\<open>return nextLEB128();\<close> converts the unsigned magnitude to \<^verbatim>\<open>int64_t\<close>, which keeps
  the bits, and \<^verbatim>\<open>-nextLEB128()\<close> negates in unsigned arithmetic before that conversion.
  \<^verbatim>\<open>ch >= '0' && ch <= '9'\<close> on a \<^verbatim>\<open>char\<close> holds for the bytes \<open>0x30\<close> to \<open>0x39\<close> only,
  whether \<^verbatim>\<open>char\<close> is signed or not.
\<close>

definition getInt :: "rstate \<Rightarrow> (error + 64 word) \<times> rstate" where
  "getInt s =
     (case checkReady s of
        (Inl e, s1) \<Rightarrow> (Inl e, s1)
      | (Inr _, s1) \<Rightarrow>
          (case Reader_next s1 of
             (Inl e, s2) \<Rightarrow> (Inl e, s2)
           | (Inr ch, s2) \<Rightarrow>
               if ch \<ge> 0x30 \<and> ch \<le> 0x39 then (Inr (ucast (ch - 0x30)), s2)
               else if ch = 0x2B then nextLEB128 s2
               else if ch = 0x2D then
                 (case nextLEB128 s2 of
                    (Inl e, s3) \<Rightarrow> (Inl e, s3)
                  | (Inr m, s3) \<Rightarrow> (Inr (- m), s3))
               else (Inl (ParseError (''getInt: Expected '0'-'9', '+' or '-'' @ [CHR 0x27])), s2)))"

definition getUInt :: "rstate \<Rightarrow> (error + 64 word) \<times> rstate" where
  "getUInt s =
     (case checkReady s of
        (Inl e, s1) \<Rightarrow> (Inl e, s1)
      | (Inr _, s1) \<Rightarrow>
          (case Reader_next s1 of
             (Inl e, s2) \<Rightarrow> (Inl e, s2)
           | (Inr ch, s2) \<Rightarrow>
               if ch \<ge> 0x30 \<and> ch \<le> 0x39 then (Inr (ucast (ch - 0x30)), s2)
               else if ch = 0x2B then nextLEB128 s2
               else (Inl (ParseError (''getInt: Expected '0'-'9' or '+'' @ [CHR 0x27])), s2)))"


subsection \<open>Arrays and objects\<close>

text \<open>
  \<^verbatim>\<open>getArray\<close> is \<open>getArray_enter\<close> (up to \<^verbatim>\<open>ready_ = false\<close>), the callback, and
  \<open>getArray_leave\<close> (from \<^verbatim>\<open>ready_ = true\<close>). A reader callback is any code: it returns,
  throws, or never returns (\<open>None\<close>), as \<^verbatim>\<open>ArrayReader::all\<close> does when its callback reads
  nothing.
\<close>

definition getArray_enter :: "rstate \<Rightarrow> (error + unit) \<times> rstate" where
  "getArray_enter s =
     (case checkReady s of
        (Inl e, s1) \<Rightarrow> (Inl e, s1)
      | (Inr _, s1) \<Rightarrow>
          (case Reader_next s1 of
             (Inl e, s2) \<Rightarrow> (Inl e, s2)
           | (Inr ch, s2) \<Rightarrow>
               if ch \<noteq> 0x5B then (Inl (ParseError (''getArray: Expected '['' @ [CHR 0x27])), s2)
               else (Inr (), ((fst s2)\<lparr>ready := False\<rparr>, snd s2))))"

definition getArray_leave :: "rstate \<Rightarrow> (error + unit) \<times> rstate" where
  "getArray_leave s =
     (case Reader_next ((fst s)\<lparr>ready := True\<rparr>, snd s) of
        (Inl e, s1) \<Rightarrow> (Inl e, s1)
      | (Inr ch, s1) \<Rightarrow>
          if ch \<noteq> 0x5D then (Inl (ParseError (''getArray: Expected ']'' @ [CHR 0x27])), s1)
          else (Inr (), s1))"

definition getArray :: "(rstate \<Rightarrow> ((error + unit) \<times> rstate) option) \<Rightarrow> rstate \<Rightarrow> ((error + unit) \<times> rstate) option" where
  "getArray func s =
     (case getArray_enter s of
        (Inl e, s1) \<Rightarrow> Some (Inl e, s1)
      | (Inr _, s1) \<Rightarrow>
          (case func s1 of
             None \<Rightarrow> None
           | Some (Inl e, s2) \<Rightarrow> Some (Inl e, s2)
           | Some (Inr _, s2) \<Rightarrow> Some (getArray_leave s2)))"

definition ArrayReader_hasNext :: "rstate \<Rightarrow> bool" where
  "ArrayReader_hasNext s = (let ret = peek s in ret \<noteq> Some 0x5D \<and> ret \<noteq> None)"

definition ArrayReader_next :: Reader where
  "ArrayReader_next = new_handle"

partial_function (option) ArrayReader_all :: "(Reader \<Rightarrow> rstate \<Rightarrow> ((error + unit) \<times> rstate) option) \<Rightarrow> rstate \<Rightarrow> ((error + unit) \<times> rstate) option" where
  "ArrayReader_all func s =
     (if ArrayReader_hasNext s then
        (case func ArrayReader_next s of
           None \<Rightarrow> None
         | Some (Inl e, s1) \<Rightarrow> Some (Inl e, s1)
         | Some (Inr _, s1) \<Rightarrow> ArrayReader_all func s1)
      else Some (Inr (), s))"

definition readArray :: "(Reader \<Rightarrow> rstate \<Rightarrow> ((error + unit) \<times> rstate) option) \<Rightarrow> rstate \<Rightarrow> ((error + unit) \<times> rstate) option" where
  "readArray func s = getArray (\<lambda>s1. ArrayReader_all func s1) s"

definition getObject_enter :: "rstate \<Rightarrow> (error + unit) \<times> rstate" where
  "getObject_enter s =
     (case checkReady s of
        (Inl e, s1) \<Rightarrow> (Inl e, s1)
      | (Inr _, s1) \<Rightarrow>
          (case Reader_next s1 of
             (Inl e, s2) \<Rightarrow> (Inl e, s2)
           | (Inr ch, s2) \<Rightarrow>
               if ch \<noteq> 0x7B then (Inl (ParseError (''getObject: Expected '{'' @ [CHR 0x27])), s2)
               else (Inr (), ((fst s2)\<lparr>ready := False\<rparr>, snd s2))))"

definition getObject_leave :: "rstate \<Rightarrow> (error + unit) \<times> rstate" where
  "getObject_leave s =
     (case Reader_next ((fst s)\<lparr>ready := True\<rparr>, snd s) of
        (Inl e, s1) \<Rightarrow> (Inl e, s1)
      | (Inr ch, s1) \<Rightarrow>
          if ch \<noteq> 0x7D then (Inl (ParseError (''getObject: Expected '}'' @ [CHR 0x27])), s1)
          else (Inr (), s1))"

definition getObject :: "(rstate \<Rightarrow> ((error + unit) \<times> rstate) option) \<Rightarrow> rstate \<Rightarrow> ((error + unit) \<times> rstate) option" where
  "getObject func s =
     (case getObject_enter s of
        (Inl e, s1) \<Rightarrow> Some (Inl e, s1)
      | (Inr _, s1) \<Rightarrow>
          (case func s1 of
             None \<Rightarrow> None
           | Some (Inl e, s2) \<Rightarrow> Some (Inl e, s2)
           | Some (Inr _, s2) \<Rightarrow> Some (getObject_leave s2)))"

definition ObjectReader_hasNext :: "rstate \<Rightarrow> bool" where
  "ObjectReader_hasNext s = (let ret = peek s in ret \<noteq> Some 0x7D \<and> ret \<noteq> None)"

text \<open>\<^verbatim>\<open>ObjectReader::next\<close>: the loop that fills \<^verbatim>\<open>key\<close>, then \<^verbatim>\<open>return Reader(is_)\<close>.\<close>

function ObjectReader_next_loop :: "byte list \<Rightarrow> rstate \<Rightarrow> (error + byte list) \<times> rstate" where
  "ObjectReader_next_loop key s =
     (case get s of
        (None, s1) \<Rightarrow> (Inl (ParseError ''ObjectReader::next: Unexpected EOF''), s1)
      | (Some ch, s1) \<Rightarrow> if ch = 0 then (Inr key, s1) else ObjectReader_next_loop (key @ [ch]) s1)"
  by pat_completeness auto
termination
  by (relation "measure (\<lambda>(key, s). length (snd s))")
     (auto simp: get_def split: list.splits)

declare ObjectReader_next_loop.simps [simp del]

definition ObjectReader_next :: "rstate \<Rightarrow> (error + byte list \<times> Reader) \<times> rstate" where
  "ObjectReader_next s =
     (case ObjectReader_next_loop [] s of
        (Inl e, s1) \<Rightarrow> (Inl e, s1)
      | (Inr key, s1) \<Rightarrow> (Inr (key, new_handle), s1))"

partial_function (option) ObjectReader_all :: "(byte list \<Rightarrow> Reader \<Rightarrow> rstate \<Rightarrow> ((error + unit) \<times> rstate) option) \<Rightarrow> rstate \<Rightarrow> ((error + unit) \<times> rstate) option" where
  "ObjectReader_all func s =
     (if ObjectReader_hasNext s then
        (case ObjectReader_next s of
           (Inl e, s1) \<Rightarrow> Some (Inl e, s1)
         | (Inr (key, val), s1) \<Rightarrow>
             (case func key val s1 of
                None \<Rightarrow> None
              | Some (Inl e, s2) \<Rightarrow> Some (Inl e, s2)
              | Some (Inr _, s2) \<Rightarrow> ObjectReader_all func s2))
      else Some (Inr (), s))"

definition readObject :: "(byte list \<Rightarrow> Reader \<Rightarrow> rstate \<Rightarrow> ((error + unit) \<times> rstate) option) \<Rightarrow> rstate \<Rightarrow> ((error + unit) \<times> rstate) option" where
  "readObject func s = getObject (\<lambda>s1. ObjectReader_all func s1) s"



subsection \<open>Skipping a value\<close>

text \<open>A call whose returned value the caller drops, as \<^verbatim>\<open>getBool();\<close> in \<^verbatim>\<open>skip\<close>.\<close>

definition discard :: "(error + 'a) \<times> 's \<Rightarrow> (error + unit) \<times> 's" where
  "discard r = (case r of (Inl e, s) \<Rightarrow> (Inl e, s) | (Inr _, s) \<Rightarrow> (Inr (), s))"

text \<open>
  \<^verbatim>\<open>Reader::skip\<close>. Its array case is \<^verbatim>\<open>readArray\<close> at the callback
  \<^verbatim>\<open>[](Reader r) { r.skip(); }\<close>, that is \<^verbatim>\<open>getArray\<close> around \<^verbatim>\<open>ArrayReader::all\<close> at that
  callback: \<open>skip_array_all\<close> is that loop, \<open>skip_object_all\<close> the loop of
  \<^verbatim>\<open>ObjectReader::all\<close> at \<^verbatim>\<open>[](std::string &, Reader r) { r.skip(); }\<close>. The child reader
  is a copy that the callback drops, so the loops keep the handle they run under and take
  the stream from the child's run. \<open>skip_is_readArray\<close> and \<open>skip_is_readObject\<close> below
  state that these are \<open>readArray\<close> and \<open>readObject\<close> at those callbacks.
\<close>

function skip :: "rstate \<Rightarrow> (error + unit) \<times> rstate"
  and skip_array_all :: "rstate \<Rightarrow> (error + unit) \<times> rstate"
  and skip_object_all :: "rstate \<Rightarrow> (error + unit) \<times> rstate"
where
  "skip s =
     (case getType s of
        (Inl e, s1) \<Rightarrow> (Inl e, s1)
      | (Inr t, s1) \<Rightarrow>
          (case t of
             Type_BOOL \<Rightarrow> discard (getBool s1)
           | Type_NIL \<Rightarrow> getNil s1
           | Type_STRING \<Rightarrow> skipString s1
           | Type_BINARY \<Rightarrow> skipBinary s1
           | Type_FLOAT \<Rightarrow> discard (getFloat s1)
           | Type_DOUBLE \<Rightarrow> discard (getDouble s1)
           | Type_INT \<Rightarrow> discard (getInt s1)
           | Type_UINT \<Rightarrow> discard (getUInt s1)
           | Type_ARRAY \<Rightarrow>
               (case getArray_enter s1 of
                  (Inl e, s2) \<Rightarrow> (Inl e, s2)
                | (Inr _, s2) \<Rightarrow>
                    (case skip_array_all s2 of
                       (Inl e, s3) \<Rightarrow> (Inl e, s3)
                     | (Inr _, s3) \<Rightarrow> getArray_leave s3))
           | Type_OBJECT \<Rightarrow>
               (case getObject_enter s1 of
                  (Inl e, s2) \<Rightarrow> (Inl e, s2)
                | (Inr _, s2) \<Rightarrow>
                    (case skip_object_all s2 of
                       (Inl e, s3) \<Rightarrow> (Inl e, s3)
                     | (Inr _, s3) \<Rightarrow> getObject_leave s3))))"
| "skip_array_all s =
     (if ArrayReader_hasNext s then
        (case skip (ArrayReader_next, snd s) of
           (Inl e, s1) \<Rightarrow> (Inl e, (fst s, snd s1))
         | (Inr _, s1) \<Rightarrow> skip_array_all (fst s, snd s1))
      else (Inr (), s))"
| "skip_object_all s =
     (if ObjectReader_hasNext s then
        (case ObjectReader_next s of
           (Inl e, s1) \<Rightarrow> (Inl e, s1)
         | (Inr (key, val), s1) \<Rightarrow>
             (case skip (val, snd s1) of
                (Inl e, s2) \<Rightarrow> (Inl e, (fst s1, snd s2))
              | (Inr _, s2) \<Rightarrow> skip_object_all (fst s1, snd s2)))
      else (Inr (), s))"
  by pat_completeness auto


lemma snd_discard [simp]: "snd (discard x) = snd x"
  by (auto simp: discard_def split: prod.splits sum.splits)

lemma get_simps [simp]:
  "get (h, []) = (None, (h, []))"
  "get (h, c # cs) = (Some c, (h, cs))"
  by (simp_all add: get_def)

lemma peek_simps [simp]:
  "peek (h, []) = None"
  "peek (h, c # cs) = Some c"
  by (simp_all add: peek_def)

lemma Reader_next_simps [simp]:
  "Reader_next (h, []) = (Inl (ParseError ''Unexpected EOF''), (h, []))"
  "Reader_next (h, c # cs) = (Inr c, (h, cs))"
  by (simp_all add: Reader_next_def)

lemma checkReady_simps [simp]:
  "ready h \<Longrightarrow> checkReady (h, x) = (Inr (), (h, x))"
  "\<not> ready h \<Longrightarrow> checkReady (h, x) = (Inl LogicError, (h, x))"
  by (simp_all add: checkReady_def)

lemma rest_nextLEB128_loop:
  "length (snd (snd (nextLEB128_loop num shift (h, cs)))) \<le> length cs"
proof (induction cs arbitrary: num shift)
  case Nil
  show ?case by (subst nextLEB128_loop.simps) simp
next
  case (Cons c cs)
  show ?case
    using Cons [of "num OR push_bit shift (ucast (c AND 0x7f))" "shift + 7"]
    by (subst nextLEB128_loop.simps) (simp add: Let_def)
qed

lemma rest_getString_loop:
  "length (snd (snd (getString_loop str (h, cs)))) \<le> length cs"
proof (induction cs arbitrary: str)
  case Nil
  show ?case by (subst getString_loop.simps) simp
next
  case (Cons c cs)
  show ?case
    using Cons [of "str @ [c]"]
    by (subst getString_loop.simps) simp
qed

lemma rest_skipString_loop:
  "length (snd (snd (skipString_loop (h, cs)))) \<le> length cs"
proof (induction cs)
  case Nil
  show ?case by (subst skipString_loop.simps) simp
next
  case (Cons c cs)
  then show ?case
    by (subst skipString_loop.simps) simp
qed

lemma rest_getBinary_loop:
  "length (snd (snd (getBinary_loop bin sz (h, cs)))) \<le> length cs"
proof (induction cs arbitrary: bin)
  case Nil
  show ?case by (subst getBinary_loop.simps) simp
next
  case (Cons c cs)
  show ?case
    using Cons [of "bin @ [c]"]
    by (subst getBinary_loop.simps) simp
qed

lemma rest_skipBinary_loop:
  "length (snd (snd (skipBinary_loop sz (h, cs)))) \<le> length cs"
proof (induction cs arbitrary: sz)
  case Nil
  show ?case by (subst skipBinary_loop.simps) simp
next
  case (Cons c cs)
  show ?case
    using Cons [of "sz - 1"]
    by (subst skipBinary_loop.simps) simp
qed

lemma rest_ObjectReader_next_loop:
  "length (snd (snd (ObjectReader_next_loop key (h, cs)))) \<le> length cs"
proof (induction cs arbitrary: key)
  case Nil
  show ?case by (subst ObjectReader_next_loop.simps) simp
next
  case (Cons c cs)
  show ?case
    using Cons [of "key @ [c]"]
    by (subst ObjectReader_next_loop.simps) simp
qed

lemma rest_bindE_next:
  assumes "\<And>c h cs. length (snd (snd (f c (h, cs)))) \<le> length cs"
  shows "length (snd (snd (bindE Reader_next f (h, cs)))) \<le> length cs"
proof (cases cs)
  case Nil
  then show ?thesis by (simp add: bindE_def)
next
  case (Cons c cs')
  then show ?thesis using assms [of c h cs'] by (simp add: bindE_def)
qed

lemma rest_getBool: "ready h \<Longrightarrow> length (snd (snd (getBool (h, c # cs)))) \<le> length cs"
  by (simp add: getBool_def)

lemma rest_getNil: "ready h \<Longrightarrow> length (snd (snd (getNil (h, c # cs)))) \<le> length cs"
  by (simp add: getNil_def)

lemma rest_skipString: "ready h \<Longrightarrow> length (snd (snd (skipString (h, c # cs)))) \<le> length cs"
  by (simp add: skipString_def rest_skipString_loop)

lemma rest_getString: "ready h \<Longrightarrow> length (snd (snd (getString (h, c # cs)))) \<le> length cs"
  by (simp add: getString_def rest_getString_loop)

lemma rest_nextLEB128: "length (snd (snd (nextLEB128 (h, cs)))) \<le> length cs"
  by (simp add: nextLEB128_def rest_nextLEB128_loop)

lemma rest_skipBinary: "ready h \<Longrightarrow> length (snd (snd (skipBinary (h, c # cs)))) \<le> length cs"
proof -
  assume "ready h"
  obtain r h' cs' where n: "nextLEB128 (h, cs) = (r, (h', cs'))"
    by (metis surj_pair)
  with rest_nextLEB128 [of h cs] have "length cs' \<le> length cs" by simp
  moreover have "length (snd (snd (skipBinary_loop sz (h', cs')))) \<le> length cs'" for sz
    by (rule rest_skipBinary_loop)
  ultimately show ?thesis
    using \<open>ready h\<close> n by (auto simp: skipBinary_def split: sum.splits intro: order_trans)
qed

lemma rest_getBinary: "ready h \<Longrightarrow> length (snd (snd (getBinary (h, c # cs)))) \<le> length cs"
proof -
  assume "ready h"
  obtain r h' cs' where n: "nextLEB128 (h, cs) = (r, (h', cs'))"
    by (metis surj_pair)
  with rest_nextLEB128 [of h cs] have "length cs' \<le> length cs" by simp
  moreover have "length (snd (snd (getBinary_loop [] sz (h', cs')))) \<le> length cs'" for sz
    by (rule rest_getBinary_loop)
  ultimately show ?thesis
    using \<open>ready h\<close> n by (auto simp: getBinary_def split: sum.splits intro: order_trans)
qed

lemma rest_getFloat: "ready h \<Longrightarrow> length (snd (snd (getFloat (h, c # cs)))) \<le> length cs"
  by (simp add: getFloat_def Let_def)
     (intro impI rest_bindE_next order_trans [OF rest_bindE_next], simp_all)


lemma rest_getDouble: "ready h \<Longrightarrow> length (snd (snd (getDouble (h, c # cs)))) \<le> length cs"
  by (simp add: getDouble_def Let_def)
     (intro impI rest_bindE_next order_trans [OF rest_bindE_next], simp_all)

lemma rest_getInt: "ready h \<Longrightarrow> length (snd (snd (getInt (h, c # cs)))) \<le> length cs"
proof -
  assume "ready h"
  obtain r h' cs' where n: "nextLEB128 (h, cs) = (r, (h', cs'))"
    by (metis surj_pair)
  with rest_nextLEB128 [of h cs] have "length cs' \<le> length cs" by simp
  then show ?thesis
    using \<open>ready h\<close> n by (auto simp: getInt_def split: sum.splits)
qed

lemma rest_getUInt: "ready h \<Longrightarrow> length (snd (snd (getUInt (h, c # cs)))) \<le> length cs"
  using rest_nextLEB128 [of h cs] by (simp add: getUInt_def)

lemma rest_getArray_enter: "ready h \<Longrightarrow> length (snd (snd (getArray_enter (h, c # cs)))) \<le> length cs"
  by (simp add: getArray_enter_def)

lemma rest_getObject_enter: "ready h \<Longrightarrow> length (snd (snd (getObject_enter (h, c # cs)))) \<le> length cs"
  by (simp add: getObject_enter_def)

lemma rest_getArray_leave: "length (snd (snd (getArray_leave s))) \<le> length (snd s)"
  by (cases s, cases "snd s") (simp_all add: getArray_leave_def)

lemma rest_getObject_leave: "length (snd (snd (getObject_leave s))) \<le> length (snd s)"
  by (cases s, cases "snd s") (simp_all add: getObject_leave_def)

lemma rest_ObjectReader_next: "length (snd (snd (ObjectReader_next s))) \<le> length (snd s)"
  using rest_ObjectReader_next_loop [of "[]" "fst s" "snd s"]
  by (auto simp: ObjectReader_next_def split: prod.splits sum.splits)

lemma getType_Inr:
  assumes "getType s = (Inr t, s1)"
  obtains h c cs where "s = (h, c # cs)" and "s1 = s" and "ready h"
proof -
  obtain h xs where s: "s = (h, xs)" by (cases s)
  from assms s have r: "ready h"
    by (cases "ready h") (simp_all add: getType_def)
  from assms s r obtain c cs where "xs = c # cs"
    by (cases xs) (simp_all add: getType_def)
  moreover from assms s r have "s1 = s"
    by (auto simp: getType_def split: option.splits if_splits)
  ultimately show ?thesis using that s r by blast
qed

lemma getType_Inl: "getType s = (Inl e, s1) \<Longrightarrow> s1 = s"
  by (cases s) (auto simp: getType_def checkReady_def split: option.splits if_splits)

lemma skip_rest_dom:
  "skip_skip_array_all_skip_object_all_dom (Inl a) \<Longrightarrow>
     length (snd (snd (skip a))) \<le> length (snd a) \<and>
     (fst (skip a) = Inr () \<longrightarrow> length (snd (snd (skip a))) < length (snd a))"
  "skip_skip_array_all_skip_object_all_dom (Inr (Inl b)) \<Longrightarrow>
     length (snd (snd (skip_array_all b))) \<le> length (snd b)"
  "skip_skip_array_all_skip_object_all_dom (Inr (Inr c)) \<Longrightarrow>
     length (snd (snd (skip_object_all c))) \<le> length (snd c)"
proof (induction a and b and c rule: skip_skip_array_all_skip_object_all.pinduct)
  case (1 s)
  obtain r s1 where g: "getType s = (r, s1)" by (cases "getType s")
  show ?case
  proof (cases r)
    case (Inl e)
    with g getType_Inl [of s e s1] 1(1) show ?thesis
      by (simp add: skip.psimps)
  next
    case (Inr t)
    with g obtain h c cs where s: "s = (h, c # cs)" "s1 = s" "ready h"
      by (auto elim: getType_Inr)
    have "length (snd (snd (skip s))) \<le> length cs"
    proof (cases t)
      case Type_ARRAY
      obtain r2 s2 where e: "getArray_enter s = (r2, s2)" by (cases "getArray_enter s")
      with rest_getArray_enter [OF s(3), of c cs] s have l2: "length (snd s2) \<le> length cs" by simp
      show ?thesis
      proof (cases r2)
        case (Inl e2)
        with e l2 g Inr Type_ARRAY s 1(1) show ?thesis by (simp add: skip.psimps)
      next
        case (Inr u)
        have "length (snd (snd (skip_array_all s2))) \<le> length (snd s2)"
          using 1(2) [of r s1 t r2 s2 u] g \<open>r = Inr t\<close> Type_ARRAY e Inr s by simp
        moreover have "length (snd (snd (getArray_leave (snd (skip_array_all s2))))) \<le> length (snd (snd (skip_array_all s2)))"
          by (rule rest_getArray_leave)
        ultimately show ?thesis
          using e l2 g \<open>r = Inr t\<close> Inr Type_ARRAY s 1(1)
          by (auto simp: skip.psimps split: prod.splits sum.splits)
      qed
    next
      case Type_OBJECT
      obtain r2 s2 where e: "getObject_enter s = (r2, s2)" by (cases "getObject_enter s")
      with rest_getObject_enter [OF s(3), of c cs] s have l2: "length (snd s2) \<le> length cs" by simp
      show ?thesis
      proof (cases r2)
        case (Inl e2)
        with e l2 g Inr Type_OBJECT s 1(1) show ?thesis by (simp add: skip.psimps)
      next
        case (Inr u)
        have "length (snd (snd (skip_object_all s2))) \<le> length (snd s2)"
          using 1(3) [of r s1 t r2 s2 u] g \<open>r = Inr t\<close> Type_OBJECT e Inr s by simp
        moreover have "length (snd (snd (getObject_leave (snd (skip_object_all s2))))) \<le> length (snd (snd (skip_object_all s2)))"
          by (rule rest_getObject_leave)
        ultimately show ?thesis
          using e l2 g \<open>r = Inr t\<close> Inr Type_OBJECT s 1(1)
          by (auto simp: skip.psimps split: prod.splits sum.splits)
      qed
    qed (use g Inr s 1(1) rest_getBool [OF s(3), of c cs] rest_getNil [OF s(3), of c cs]
          rest_skipString [OF s(3), of c cs] rest_skipBinary [OF s(3), of c cs]
          rest_getFloat [OF s(3), of c cs] rest_getDouble [OF s(3), of c cs]
          rest_getInt [OF s(3), of c cs] rest_getUInt [OF s(3), of c cs]
         in \<open>simp_all add: skip.psimps\<close>)
    then show ?thesis using s by simp
  qed
next
  case (2 s)
  show ?case
  proof (cases "ArrayReader_hasNext s")
    case False
    with 2(1) show ?thesis by (simp add: skip_array_all.psimps)
  next
    case True
    obtain r y where k: "skip (ArrayReader_next, snd s) = (r, y)" by (cases "skip (ArrayReader_next, snd s)")
    from 2(2) [OF True] k have l: "length (snd y) \<le> length (snd s)" by simp
    show ?thesis
    proof (cases r)
      case (Inl e)
      with 2(1) True k l show ?thesis by (simp add: skip_array_all.psimps)
    next
      case (Inr u)
      from 2(3) [OF True k [symmetric] Inr] l 2(1) True k Inr show ?thesis
        by (simp add: skip_array_all.psimps)
    qed
  qed
next
  case (3 s)
  show ?case
  proof (cases "ObjectReader_hasNext s")
    case False
    with 3(1) show ?thesis by (simp add: skip_object_all.psimps)
  next
    case True
    obtain r y where n: "ObjectReader_next s = (r, y)" by (cases "ObjectReader_next s")
    with rest_ObjectReader_next [of s] have ly: "length (snd y) \<le> length (snd s)" by simp
    show ?thesis
    proof (cases r)
      case (Inl e)
      with 3(1) True n ly show ?thesis by (simp add: skip_object_all.psimps)
    next
      case (Inr kv)
      obtain key val where kv: "kv = (key, val)" by (cases kv)
      obtain r2 y2 where k: "skip (val, snd y) = (r2, y2)" by (cases "skip (val, snd y)")
      from 3(2) [OF True n [symmetric] Inr kv [symmetric]] k
      have l2: "length (snd y2) \<le> length (snd y)" by simp
      show ?thesis
      proof (cases r2)
        case (Inl e)
        with 3(1) True n Inr kv k l2 ly show ?thesis by (simp add: skip_object_all.psimps)
      next
        case (Inr u)
        from 3(3) [OF True n [symmetric] \<open>r = Inr kv\<close> kv [symmetric] k [symmetric] Inr]
          3(1) True n \<open>r = Inr kv\<close> kv k Inr l2 ly
        show ?thesis by (simp add: skip_object_all.psimps)
      qed
    qed
  qed
qed

lemma skip_dom_total: "All skip_skip_array_all_skip_object_all_dom"
proof (relation "measure (\<lambda>x. case x of Inl s \<Rightarrow> 2 * length (snd s)
                                | Inr (Inl s) \<Rightarrow> 2 * length (snd s) + 1
                                | Inr (Inr s) \<Rightarrow> 2 * length (snd s) + 1)", goal_cases)
  case 1
  show ?case by simp
next
  case (2 s x y b xa ya ba)
  then obtain h c cs where "s = (h, c # cs)" "y = s" "ready h"
    by (metis getType_Inr)
  moreover from this 2 rest_getArray_enter [of h c cs] have "length (snd ya) \<le> length cs"
    by (metis snd_conv)
  ultimately show ?case by simp
next
  case (3 s x y b xa ya ba)
  then obtain h c cs where "s = (h, c # cs)" "y = s" "ready h"
    by (metis getType_Inr)
  moreover from this 3 rest_getObject_enter [of h c cs] have "length (snd ya) \<le> length cs"
    by (metis snd_conv)
  ultimately show ?case by simp
next
  case (4 s)
  then show ?case by simp
next
  case (5 s x y b)
  from 5(2,3) have "skip (ArrayReader_next, snd s) = (Inr (), y)"
    by (cases b) simp
  with skip_rest_dom(1) [OF 5(4)] have "length (snd y) < length (snd s)"
    by simp
  then show ?case by simp
next
  case (6 s x y b xa ya)
  with rest_ObjectReader_next [of s] have "length (snd y) \<le> length (snd s)"
    by (metis snd_conv)
  then show ?case by simp
next
  case (7 s x y b xa ya xb yb ba)
  from 7 rest_ObjectReader_next [of s] have "length (snd y) \<le> length (snd s)"
    by (metis snd_conv)
  moreover from 7(5,6) have "skip (ya, snd y) = (Inr (), yb)"
    by (cases ba) simp
  with skip_rest_dom(1) [OF 7(7)] have "length (snd yb) < length (snd y)"
    by simp
  ultimately show ?case by simp
qed

termination skip
  by (rule skip_dom_total)

declare skip.simps [simp del] skip_array_all.simps [simp del] skip_object_all.simps [simp del]

lemmas skip_rest = skip_rest_dom [OF skip_dom_total [THEN spec]]




subsection \<open>Decoding a value\<close>

text \<open>
  The values of the format, and the decoding of one value by the reader's own routines:
  \<^verbatim>\<open>getType\<close>, then the \<^verbatim>\<open>get\<close> routine of that type, and for the containers
  \<^verbatim>\<open>readArray\<close> and \<^verbatim>\<open>readObject\<close> with a callback that decodes the element it is given and
  appends it. The header has no such routine: this is the caller that reads every value in
  full, built as \<^verbatim>\<open>skip\<close> is built, with \<open>decode_array_all\<close> and \<open>decode_object_all\<close> the loops
  of \<^verbatim>\<open>ArrayReader::all\<close> and \<^verbatim>\<open>ObjectReader::all\<close> at that callback. A float or a double is
  its bit pattern, an integer the 64-bit word the routine returns.
\<close>

datatype Value =
  Bool bool | Null | String "byte list" | Binary "byte list" | Float32 "32 word"
  | Float64 "64 word" | Int64 "64 word" | UInt64 "64 word" | Array "Value list"
  | Object "(byte list \<times> Value) list"

text \<open>The returned value passed through \<open>f\<close>; an error is passed on.\<close>

definition mapR :: "('a \<Rightarrow> 'b) \<Rightarrow> (error + 'a) \<times> 's \<Rightarrow> (error + 'b) \<times> 's" where
  "mapR f r = (case r of (Inl e, s) \<Rightarrow> (Inl e, s) | (Inr a, s) \<Rightarrow> (Inr (f a), s))"

function decode :: "rstate \<Rightarrow> (error + Value) \<times> rstate"
  and decode_array_all :: "Value list \<Rightarrow> rstate \<Rightarrow> (error + Value list) \<times> rstate"
  and decode_object_all :: "(byte list \<times> Value) list \<Rightarrow> rstate \<Rightarrow> (error + (byte list \<times> Value) list) \<times> rstate"
where
  "decode s =
     (case getType s of
        (Inl e, s1) \<Rightarrow> (Inl e, s1)
      | (Inr t, s1) \<Rightarrow>
          (case t of
             Type_BOOL \<Rightarrow> mapR Bool (getBool s1)
           | Type_NIL \<Rightarrow> mapR (\<lambda>_. Null) (getNil s1)
           | Type_STRING \<Rightarrow> mapR String (getString s1)
           | Type_BINARY \<Rightarrow> mapR Binary (getBinary s1)
           | Type_FLOAT \<Rightarrow> mapR Float32 (getFloat s1)
           | Type_DOUBLE \<Rightarrow> mapR Float64 (getDouble s1)
           | Type_INT \<Rightarrow> mapR Int64 (getInt s1)
           | Type_UINT \<Rightarrow> mapR UInt64 (getUInt s1)
           | Type_ARRAY \<Rightarrow>
               (case getArray_enter s1 of
                  (Inl e, s2) \<Rightarrow> (Inl e, s2)
                | (Inr _, s2) \<Rightarrow>
                    (case decode_array_all [] s2 of
                       (Inl e, s3) \<Rightarrow> (Inl e, s3)
                     | (Inr vs, s3) \<Rightarrow> mapR (\<lambda>_. Array vs) (getArray_leave s3)))
           | Type_OBJECT \<Rightarrow>
               (case getObject_enter s1 of
                  (Inl e, s2) \<Rightarrow> (Inl e, s2)
                | (Inr _, s2) \<Rightarrow>
                    (case decode_object_all [] s2 of
                       (Inl e, s3) \<Rightarrow> (Inl e, s3)
                     | (Inr kvs, s3) \<Rightarrow> mapR (\<lambda>_. Object kvs) (getObject_leave s3)))))"
| "decode_array_all vs s =
     (if ArrayReader_hasNext s then
        (case decode (ArrayReader_next, snd s) of
           (Inl e, s1) \<Rightarrow> (Inl e, (fst s, snd s1))
         | (Inr v, s1) \<Rightarrow> decode_array_all (vs @ [v]) (fst s, snd s1))
      else (Inr vs, s))"
| "decode_object_all kvs s =
     (if ObjectReader_hasNext s then
        (case ObjectReader_next s of
           (Inl e, s1) \<Rightarrow> (Inl e, s1)
         | (Inr (key, val), s1) \<Rightarrow>
             (case decode (val, snd s1) of
                (Inl e, s2) \<Rightarrow> (Inl e, (fst s1, snd s2))
              | (Inr v, s2) \<Rightarrow> decode_object_all (kvs @ [(key, v)]) (fst s1, snd s2)))
      else (Inr kvs, s))"
  by pat_completeness auto


lemma discard_mapR [simp]: "discard (mapR f x) = discard x"
  by (auto simp: discard_def mapR_def split: prod.splits sum.splits)

lemma discard_unit [simp]: "discard (x :: (error + unit) \<times> 's) = x"
  by (auto simp: discard_def split: prod.splits sum.splits)

lemma discard_getString_loop: "discard (getString_loop str (h, cs)) = skipString_loop (h, cs)"
proof (induction cs arbitrary: str)
  case Nil
  show ?case
    by (subst getString_loop.simps, subst skipString_loop.simps) (simp add: discard_def)
next
  case (Cons c cs)
  show ?case
    using Cons [of "str @ [c]"]
    by (subst getString_loop.simps, subst skipString_loop.simps) (simp add: discard_def)
qed

lemma discard_getString: "discard (getString (h, 0x53 # cs)) = skipString (h, 0x53 # cs)"
  by (cases "ready h") (simp_all add: getString_def skipString_def discard_getString_loop, simp add: discard_def)

lemma skipBinary_loop_eq:
  "skipBinary_loop sz (h, cs) =
     (if unat sz \<le> length cs then (Inr (), (h, drop (unat sz) cs))
      else (Inl (ParseError ''Unexpected EOF''), (h, [])))"
proof (induction cs arbitrary: sz)
  case Nil
  show ?case
    by (subst skipBinary_loop.simps) (simp add: word_gt_0 unat_eq_0)
next
  case (Cons c cs)
  show ?case
  proof (cases "sz = 0")
    case True
    then show ?thesis by (subst skipBinary_loop.simps) simp
  next
    case False
    then have u: "unat (sz - 1) = unat sz - 1" and p: "0 < unat sz"
      by (simp_all add: unat_minus_one unat_gt_0)
    from p obtain k where k: "unat sz = Suc k" by (cases "unat sz") simp_all
    from False have "skipBinary_loop sz (h, c # cs) = skipBinary_loop (sz - 1) (h, cs)"
      by (subst skipBinary_loop.simps) (simp add: word_gt_0)
    with Cons [of "sz - 1"] u k show ?thesis by simp
  qed
qed

lemma getBinary_loop_eq:
  "getBinary_loop bin sz (h, cs) =
     (if unat sz - length bin \<le> length cs
      then (Inr (bin @ take (unat sz - length bin) cs), (h, drop (unat sz - length bin) cs))
      else (Inl (ParseError ''Unexpected EOF''), (h, [])))"
proof (induction cs arbitrary: bin)
  case Nil
  show ?case
    by (subst getBinary_loop.simps) auto
next
  case (Cons c cs)
  show ?case
  proof (cases "length bin < unat sz")
    case False
    then show ?thesis by (subst getBinary_loop.simps) simp
  next
    case True
    then obtain k where k: "unat sz - length bin = Suc k" by (cases "unat sz - length bin") simp_all
    then have k': "unat sz - Suc (length bin) = k" by simp
    from True have "getBinary_loop bin sz (h, c # cs) = getBinary_loop (bin @ [c]) sz (h, cs)"
      by (subst getBinary_loop.simps) simp
    with Cons [of "bin @ [c]"] k k' show ?thesis by simp
  qed
qed

lemma discard_getBinary: "discard (getBinary (h, 0x42 # cs)) = skipBinary (h, 0x42 # cs)"
proof (cases "ready h")
  case False
  then show ?thesis by (simp add: getBinary_def skipBinary_def discard_def)
next
  case True
  obtain r h' cs' where n: "nextLEB128 (h, cs) = (r, (h', cs'))"
    by (metis surj_pair)
  with True show ?thesis
    by (cases r) (simp_all add: getBinary_def skipBinary_def getBinary_loop_eq skipBinary_loop_eq discard_def)
qed

lemma getType_tag:
  assumes "getType s = (Inr t, s1)"
  obtains h c cs where "s = (h, c # cs)" and "s1 = s" and "ready h"
    and "t = Type_STRING \<Longrightarrow> c = 0x53" and "t = Type_BINARY \<Longrightarrow> c = 0x42"
proof -
  from assms obtain h c cs where s: "s = (h, c # cs)" "s1 = s" "ready h"
    by (rule getType_Inr)
  from assms s have "t = Type_STRING \<Longrightarrow> c = 0x53" and "t = Type_BINARY \<Longrightarrow> c = 0x42"
    by (auto simp: getType_def split: if_splits)
  with s that show ?thesis by blast
qed

lemma discard_case:
  "discard (case x of (Inl e, s) \<Rightarrow> (Inl e, s) | (Inr a, s) \<Rightarrow> f a s) =
     (case x of (Inl e, s) \<Rightarrow> (Inl e, s) | (Inr a, s) \<Rightarrow> discard (f a s))"
  by (auto simp: discard_def split: prod.splits sum.splits)

lemma case_discard:
  "(case discard x of (Inl e, s) \<Rightarrow> (Inl e, s) | (Inr u, s) \<Rightarrow> g s) =
     (case x of (Inl e, s) \<Rightarrow> (Inl e, s) | (Inr a, s) \<Rightarrow> g s)"
  by (auto simp: discard_def split: prod.splits sum.splits)

lemma decode_skip_dom:
  "decode_decode_array_all_decode_object_all_dom (Inl a) \<Longrightarrow> discard (decode a) = skip a"
  "decode_decode_array_all_decode_object_all_dom (Inr (Inl (vs, b))) \<Longrightarrow>
     discard (decode_array_all vs b) = skip_array_all b"
  "decode_decode_array_all_decode_object_all_dom (Inr (Inr (kvs, c))) \<Longrightarrow>
     discard (decode_object_all kvs c) = skip_object_all c"
proof (induction a and vs b and kvs c rule: decode_decode_array_all_decode_object_all.pinduct)
  case (1 s)
  obtain r s1 where g: "getType s = (r, s1)" by (cases "getType s")
  show ?case
  proof (cases r)
    case (Inl e)
    with g 1(1) show ?thesis by (simp add: decode.psimps skip.simps [of s] discard_def)
  next
    case (Inr t)
    note sk = skip.simps [of s]
    from Inr g obtain h c cs where s: "s = (h, c # cs)" "s1 = s" "ready h"
      and tag: "t = Type_STRING \<Longrightarrow> c = 0x53" "t = Type_BINARY \<Longrightarrow> c = 0x42"
      by (auto elim: getType_tag)
    show ?thesis
    proof (cases t)
      case Type_STRING
      with g Inr s tag 1(1) sk show ?thesis
        by (simp add: decode.psimps discard_getString)
    next
      case Type_BINARY
      with g Inr s tag 1(1) sk show ?thesis
        by (simp add: decode.psimps discard_getBinary)
    next
      case Type_ARRAY
      obtain r2 s2 where e: "getArray_enter s = (r2, s2)" by (cases "getArray_enter s")
      show ?thesis
      proof (cases r2)
        case (Inl e2)
        with e g \<open>r = Inr t\<close> Type_ARRAY s 1(1) sk show ?thesis by (simp add: decode.psimps discard_def)
      next
        case (Inr u)
        have "discard (decode_array_all [] s2) = skip_array_all s2"
          using 1(2) [of r s1 t r2 s2 u] g \<open>r = Inr t\<close> Type_ARRAY e Inr s by simp
        then have "(case decode_array_all [] s2 of (Inl e, s3) \<Rightarrow> (Inl e, s3) | (Inr a, s3) \<Rightarrow> getArray_leave s3) =
          (case skip_array_all s2 of (Inl e, s3) \<Rightarrow> (Inl e, s3) | (Inr a, s3) \<Rightarrow> getArray_leave s3)"
          by (simp flip: case_discard [where x = "decode_array_all [] s2"])
        with e g \<open>r = Inr t\<close> Inr Type_ARRAY s 1(1) sk show ?thesis
          by (simp add: decode.psimps discard_case cong: prod.case_cong sum.case_cong)
      qed
    next
      case Type_OBJECT
      obtain r2 s2 where e: "getObject_enter s = (r2, s2)" by (cases "getObject_enter s")
      show ?thesis
      proof (cases r2)
        case (Inl e2)
        with e g \<open>r = Inr t\<close> Type_OBJECT s 1(1) sk show ?thesis by (simp add: decode.psimps discard_def)
      next
        case (Inr u)
        have "discard (decode_object_all [] s2) = skip_object_all s2"
          using 1(3) [of r s1 t r2 s2 u] g \<open>r = Inr t\<close> Type_OBJECT e Inr s by simp
        then have "(case decode_object_all [] s2 of (Inl e, s3) \<Rightarrow> (Inl e, s3) | (Inr a, s3) \<Rightarrow> getObject_leave s3) =
          (case skip_object_all s2 of (Inl e, s3) \<Rightarrow> (Inl e, s3) | (Inr a, s3) \<Rightarrow> getObject_leave s3)"
          by (simp flip: case_discard [where x = "decode_object_all [] s2"])
        with e g \<open>r = Inr t\<close> Inr Type_OBJECT s 1(1) sk show ?thesis
          by (simp add: decode.psimps discard_case cong: prod.case_cong sum.case_cong)
      qed
    qed (use g Inr s 1(1) sk in \<open>simp_all add: decode.psimps\<close>)
  qed
next
  case (2 vs s)
  show ?case
  proof (cases "ArrayReader_hasNext s")
    case False
    with 2(1) show ?thesis by (simp add: decode_array_all.psimps skip_array_all.simps [of s] discard_def)
  next
    case True
    obtain r y where k: "decode (ArrayReader_next, snd s) = (r, y)"
      by (cases "decode (ArrayReader_next, snd s)")
    from 2(2) [OF True] k have d: "skip (ArrayReader_next, snd s) = discard (r, y)" by simp
    show ?thesis
    proof (cases r)
      case (Inl e)
      with 2(1) True k d show ?thesis by (simp add: decode_array_all.psimps skip_array_all.simps [of s] discard_def)
    next
      case (Inr v)
      from 2(3) [OF True k [symmetric] Inr] 2(1) True k Inr d show ?thesis
        by (simp add: decode_array_all.psimps skip_array_all.simps [of s] discard_def)
    qed
  qed
next
  case (3 kvs s)
  show ?case
  proof (cases "ObjectReader_hasNext s")
    case False
    with 3(1) show ?thesis by (simp add: decode_object_all.psimps skip_object_all.simps [of s] discard_def)
  next
    case True
    obtain r y where n: "ObjectReader_next s = (r, y)" by (cases "ObjectReader_next s")
    show ?thesis
    proof (cases r)
      case (Inl e)
      with 3(1) True n show ?thesis by (simp add: decode_object_all.psimps skip_object_all.simps [of s] discard_def)
    next
      case (Inr kv)
      obtain key val where kv: "kv = (key, val)" by (cases kv)
      obtain r2 y2 where k: "decode (val, snd y) = (r2, y2)" by (cases "decode (val, snd y)")
      from 3(2) [OF True n [symmetric] Inr kv [symmetric]] k
      have d: "skip (val, snd y) = discard (r2, y2)" by simp
      show ?thesis
      proof (cases r2)
        case (Inl e)
        with 3(1) True n \<open>r = Inr kv\<close> kv k d show ?thesis
          by (simp add: decode_object_all.psimps skip_object_all.simps [of s] discard_def)
      next
        case (Inr v)
        from 3(3) [OF True n [symmetric] \<open>r = Inr kv\<close> kv [symmetric] k [symmetric] Inr]
          3(1) True n \<open>r = Inr kv\<close> kv k Inr d
        show ?thesis by (simp add: decode_object_all.psimps skip_object_all.simps [of s] discard_def)
      qed
    qed
  qed
qed


lemma decode_dom_total: "All decode_decode_array_all_decode_object_all_dom"
proof (relation "measure (\<lambda>x. case x of Inl s \<Rightarrow> 2 * length (snd s)
                                | Inr (Inl (vs, s)) \<Rightarrow> 2 * length (snd s) + 1
                                | Inr (Inr (kvs, s)) \<Rightarrow> 2 * length (snd s) + 1)", goal_cases)
  case 1
  show ?case by simp
next
  case (2 s x y b xa ya ba)
  then obtain h c cs where "s = (h, c # cs)" "y = s" "ready h"
    by (metis getType_Inr)
  moreover from this 2 rest_getArray_enter [of h c cs] have "length (snd ya) \<le> length cs"
    by (metis snd_conv)
  ultimately show ?case by simp
next
  case (3 s x y b xa ya ba)
  then obtain h c cs where "s = (h, c # cs)" "y = s" "ready h"
    by (metis getType_Inr)
  moreover from this 3 rest_getObject_enter [of h c cs] have "length (snd ya) \<le> length cs"
    by (metis snd_conv)
  ultimately show ?case by simp
next
  case (4 vs s)
  then show ?case by simp
next
  case (5 vs s x y b)
  from decode_skip_dom(1) [OF 5(4)] 5(2,3) have "skip (ArrayReader_next, snd s) = (Inr (), y)"
    by (simp add: discard_def flip: 5(2))
  with skip_rest(1) [of "(ArrayReader_next, snd s)"] have "length (snd y) < length (snd s)"
    by simp
  then show ?case by simp
next
  case (6 kvs s x y b xa ya)
  with rest_ObjectReader_next [of s] have "length (snd y) \<le> length (snd s)"
    by (metis snd_conv)
  then show ?case by simp
next
  case (7 kvs s x y b xa ya xb yb ba)
  from 7 rest_ObjectReader_next [of s] have "length (snd y) \<le> length (snd s)"
    by (metis snd_conv)
  moreover from decode_skip_dom(1) [OF 7(7)] 7(5,6) have "skip (ya, snd y) = (Inr (), yb)"
    by (simp add: discard_def flip: 7(5))
  with skip_rest(1) [of "(ya, snd y)"] have "length (snd yb) < length (snd y)"
    by simp
  ultimately show ?case by simp
qed

termination decode
  by (rule decode_dom_total)

declare decode.simps [simp del] decode_array_all.simps [simp del] decode_object_all.simps [simp del]

lemmas decode_skip = decode_skip_dom [OF decode_dom_total [THEN spec]]



subsection \<open>Operations and callbacks named in the properties\<close>

text \<open>
  The scalar write operations of \<^verbatim>\<open>Writer\<close>, as one operation with the value to write.
\<close>

datatype scalar =
  STrue | SFalse | SBool bool | SNull | SString "byte list" | SFloat "32 word"
  | SDouble "64 word" | SBinary "byte list" | SInt "64 word" | SUInt "64 word"

fun writeScalar :: "scalar \<Rightarrow> wstate \<Rightarrow> (error + unit) \<times> wstate" where
  "writeScalar STrue = writeTrue"
| "writeScalar SFalse = writeFalse"
| "writeScalar (SBool b) = writeBool b"
| "writeScalar SNull = writeNull"
| "writeScalar (SString str) = writeString str"
| "writeScalar (SFloat f) = writeFloat f"
| "writeScalar (SDouble d) = writeDouble d"
| "writeScalar (SBinary data) = writeBinary data"
| "writeScalar (SInt num) = writeInt num"
| "writeScalar (SUInt num) = writeUInt num"

text \<open>
  The callbacks of the test "Logic error checking", \<^verbatim>\<open>[&](auto) { w.writeInt(10); }\<close>: they
  write on the handle the scope was opened from, not on the child.
\<close>

definition write_to_toplevel :: "Writer \<Rightarrow> wstate \<Rightarrow> (error + unit) \<times> wstate" where
  "write_to_toplevel child = writeInt 10"

definition write_to_toplevel_object :: "wstate \<Rightarrow> (error + unit) \<times> wstate" where
  "write_to_toplevel_object = writeInt 10"

text \<open>
  \<^verbatim>\<open>[](Writer w) { w.writeTrue(); }\<close>, \<^verbatim>\<open>[](ObjectWriter w) { w.key("x").writeInt(2); }\<close>,
  \<^verbatim>\<open>[](ArrayReader arr) { arr.next().getBool(); }\<close> and \<^verbatim>\<open>[](ArrayReader) {}\<close>.
\<close>

definition write_true_element :: "Writer \<Rightarrow> wstate \<Rightarrow> (error + unit) \<times> wstate" where
  "write_true_element child = on_handle child writeTrue"

definition write_x_entry :: "wstate \<Rightarrow> (error + unit) \<times> wstate" where
  "write_x_entry s = (case ObjectWriter_key [0x78] s of (child, s1) \<Rightarrow> on_handle child (writeInt 2) s1)"

definition read_bool_element :: "rstate \<Rightarrow> ((error + unit) \<times> rstate) option" where
  "read_bool_element s = Some (on_handle ArrayReader_next (\<lambda>t. discard (getBool t)) s)"

definition return_at_once :: "rstate \<Rightarrow> ((error + unit) \<times> rstate) option" where
  "return_at_once s = Some (Inr (), s)"

text \<open>
  The bytes of \<^verbatim>\<open>[T{x<00>[-<42>Shi<00>]}B<02><00>]]N\<close>: an array of true, an object whose
  key \<^verbatim>\<open>x\<close> holds the array of -66 and "hi", and the binary of the two bytes \<open>0x00\<close> and
  \<^verbatim>\<open>']'\<close>; then a null that belongs to the next value.
\<close>

definition nested_document :: "byte list" where
  "nested_document = [0x5B, 0x54, 0x7B, 0x78, 0x00, 0x5B, 0x2D, 0x42, 0x53, 0x68, 0x69, 0x00, 0x5D, 0x7D,
                      0x42, 0x02, 0x00, 0x5D, 0x5D, 0x4E]"


section \<open>Facts about the byte-level operations\<close>

lemma gt7f_iff: "(num :: 64 word) > 0x7f \<longleftrightarrow> drop_bit 7 num \<noteq> 0"
proof -
  have "drop_bit 7 num = 0 \<longleftrightarrow> unat num div 128 = 0"
    by (simp add: drop_bit_eq_div unat_div flip: unat_eq_0)
  also have "\<dots> \<longleftrightarrow> unat num \<le> 127" by auto
  also have "\<dots> \<longleftrightarrow> num \<le> 0x7f" by (simp add: word_le_nat_alt)
  finally show ?thesis by (simp add: not_le)
qed

lemma unat_drop7: "unat (drop_bit 7 (num :: 64 word)) = unat num div 128"
  by (simp add: drop_bit_eq_div unat_div)

lemma drop7_less: "drop_bit 7 (num :: 64 word) \<noteq> 0 \<Longrightarrow> unat (drop_bit 7 num) < unat num"
proof -
  assume nz: "drop_bit 7 num \<noteq> 0"
  then have "unat (drop_bit 7 num) \<noteq> 0"
    by (simp add: unat_eq_0)
  then show ?thesis by (simp add: unat_drop7)
qed

lemma writeLEB128_last:
  "drop_bit 7 num = 0 \<Longrightarrow> writeLEB128 num s = put (ucast (num AND 0x7f)) s"
  by (subst writeLEB128.simps) (simp add: Let_def gt7f_iff)

lemma writeLEB128_more:
  "drop_bit 7 num \<noteq> 0 \<Longrightarrow>
   writeLEB128 num s = writeLEB128 (drop_bit 7 num) (put (0x80 OR ucast (num AND 0x7f)) s)"
  by (subst writeLEB128.simps) (simp add: Let_def gt7f_iff)

lemma writeLEB128_fst: "fst (writeLEB128 num s) = fst s"
  by (induction num s rule: writeLEB128.induct)
     (subst writeLEB128.simps, simp add: Let_def put_def)

lemma writeLEB128_app: "snd (writeLEB128 num s) = snd s @ varint num"
proof (induction "unat num" arbitrary: num s rule: less_induct)
  case less
  show ?case
  proof (cases "drop_bit 7 num = 0")
    case True
    then show ?thesis by (simp add: writeLEB128_last put_def varint_def)
  next
    case False
    let ?b = "0x80 OR ucast (num AND 0x7f) :: byte"
    have "snd (writeLEB128 num s) = snd (put ?b s) @ varint (drop_bit 7 num)"
      using False less [OF drop7_less [OF False], of "put ?b s"]
      by (simp add: writeLEB128_more)
    moreover have "varint num = [?b] @ varint (drop_bit 7 num)"
      using False less [OF drop7_less [OF False], of "put ?b (new_handle, [])"]
      by (simp add: writeLEB128_more put_def varint_def)
    ultimately show ?thesis by (simp add: put_def)
  qed
qed

lemma writeLEB128_varint: "writeLEB128 num (w, os) = (w, os @ varint num)"
  using writeLEB128_fst [of num "(w, os)"] writeLEB128_app [of num "(w, os)"]
  by (cases "writeLEB128 num (w, os)") simp

lemma varint_unfold:
  "varint num =
     (if drop_bit 7 num = 0 then [ucast (num AND 0x7f)]
      else (0x80 OR ucast (num AND 0x7f)) # varint (drop_bit 7 num))"
proof (cases "drop_bit 7 num = 0")
  case True
  then show ?thesis by (simp add: varint_def writeLEB128_last put_def)
next
  case False
  then have "varint num = snd (writeLEB128 (drop_bit 7 num) (new_handle, [0x80 OR ucast (num AND 0x7f)]))"
    by (simp add: varint_def writeLEB128_more put_def)
  with False show ?thesis by (simp add: writeLEB128_varint)
qed

lemma varint_length:
  "0 < k \<Longrightarrow> unat n < 2 ^ (7 * k) \<Longrightarrow> k = 1 \<or> 2 ^ (7 * (k - 1)) \<le> unat n \<Longrightarrow> length (varint n) = k"
proof (induction k arbitrary: n)
  case 0
  then show ?case by simp
next
  case (Suc k)
  show ?case
  proof (cases "k = 0")
    case True
    with Suc.prems have "unat n div 128 = 0" by simp
    then have "drop_bit 7 n = 0" by (simp add: unat_drop7 flip: unat_eq_0)
    with True show ?thesis by (subst varint_unfold) simp
  next
    case False
    with Suc.prems have lo: "2 ^ (7 * k) \<le> unat n" and hi: "unat n < 2 ^ (7 * Suc k)" by simp_all
    from False obtain j where k: "k = Suc j" by (cases k) simp_all
    have "(2::nat) ^ (7 * k) = 128 * 2 ^ (7 * j)" by (simp add: k power_add)
    with lo have lo': "2 ^ (7 * j) \<le> unat n div 128" by simp
    have "(2::nat) ^ (7 * Suc k) = 128 * 2 ^ (7 * k)" by (simp add: power_add)
    with hi have hi': "unat n div 128 < 2 ^ (7 * k)"
      by (simp add: less_mult_imp_div_less mult.commute)
    from lo' have "unat n div 128 \<noteq> 0"
      by (metis power_eq_0_iff zero_neq_numeral le_0_eq)
    then have nz: "drop_bit 7 n \<noteq> 0" by (simp add: unat_drop7 flip: unat_eq_0)
    have "length (varint (drop_bit 7 n)) = k"
      using Suc.IH [of "drop_bit 7 n"] False lo' hi' k by (simp add: unat_drop7)
    with nz show ?thesis by (subst varint_unfold) simp
  qed
qed

lemma varint_bits:
  "i < length (varint n) \<Longrightarrow>
     varint n ! i AND 0x7f = ucast (drop_bit (7 * i) n AND 0x7f) \<and>
     (bit (varint n ! i) 7 \<longleftrightarrow> i + 1 < length (varint n))"
proof (induction "unat n" arbitrary: n i rule: less_induct)
  case less
  have m64: "(0x7f :: 64 word) = mask 7" and m8: "(0x7f :: byte) = mask 7"
    by (simp_all add: mask_eq_exp_minus_1)
  have low: "(ucast (n AND 0x7f) :: byte) AND 0x7f = ucast (n AND 0x7f)"
    unfolding m64 m8 by (rule bit_eqI) (auto simp: bit_simps)
  have "(0x80 OR ucast (n AND 0x7f) :: byte) AND 0x7f = (0x80 AND 0x7f) OR (ucast (n AND 0x7f) AND 0x7f)"
    by (rule bit.conj_disj_distrib2)
  with low have low': "(0x80 OR ucast (n AND 0x7f) :: byte) AND 0x7f = ucast (n AND 0x7f)"
    by simp
  have hi0: "\<not> bit (ucast (n AND 0x7f) :: byte) 7"
    unfolding m64 by (auto simp: bit_simps)
  have hi1: "bit (0x80 OR ucast (n AND 0x7f) :: byte) 7"
    by (simp add: bit_or_iff)
  show ?case
  proof (cases "drop_bit 7 n = 0")
    case True
    then have v: "varint n = [ucast (n AND 0x7f)]" by (subst varint_unfold) simp
    with less.prems have "i = 0" by simp
    with v low hi0 show ?thesis by simp
  next
    case False
    then have v: "varint n = (0x80 OR ucast (n AND 0x7f)) # varint (drop_bit 7 n)"
      by (subst varint_unfold) simp
    show ?thesis
    proof (cases i)
      case 0
      have "varint (drop_bit 7 n) \<noteq> []" by (subst varint_unfold) simp
      with 0 v low' hi1 show ?thesis by simp
    next
      case (Suc j)
      with less.prems v have j: "j < length (varint (drop_bit 7 n))" by simp
      from less.hyps [OF drop7_less [OF False] j] Suc v show ?thesis
        by (simp add: add.commute)
    qed
  qed
qed


lemma low7_ucast: "(ucast ((ucast (m AND 0x7f :: 64 word) :: byte) AND 0x7f) :: 64 word) = m AND 0x7f"
proof -
  have m64: "(0x7f :: 64 word) = mask 7" and m8: "(0x7f :: byte) = mask 7"
    by (simp_all add: mask_eq_exp_minus_1)
  show ?thesis unfolding m64 m8 by (rule bit_eqI) (auto simp: bit_simps)
qed

lemma low7_ucast': "(ucast ((0x80 OR ucast (m AND 0x7f :: 64 word) :: byte) AND 0x7f) :: 64 word) = m AND 0x7f"
proof -
  have "(0x80 OR ucast (m AND 0x7f) :: byte) AND 0x7f = (0x80 AND 0x7f) OR (ucast (m AND 0x7f) AND 0x7f)"
    by (rule bit.conj_disj_distrib2)
  then have "(0x80 OR ucast (m AND 0x7f) :: byte) AND 0x7f = ucast (m AND 0x7f) AND 0x7f"
    by simp
  then show ?thesis by (simp add: low7_ucast)
qed

lemma last_group_small: "\<not> (ucast (m AND 0x7f :: 64 word) :: byte) \<ge> 0x80"
proof -
  have m64: "(0x7f :: 64 word) = mask 7" and m8: "(0x7f :: byte) = mask 7"
    by (simp_all add: mask_eq_exp_minus_1)
  have "(ucast (m AND 0x7f) :: byte) = ucast (m AND 0x7f) AND 0x7f"
    unfolding m64 m8 by (rule bit_eqI) (auto simp: bit_simps)
  moreover have "(ucast (m AND 0x7f) :: byte) AND 0x7f \<le> 0x7f"
    by (rule word_and_le1)
  ultimately have "(ucast (m AND 0x7f) :: byte) \<le> 0x7f" by simp
  then show ?thesis by (simp add: word_le_nat_alt)
qed

lemma more_group_big: "(0x80 OR x :: byte) \<ge> 0x80"
  by (rule le_word_or2)

lemma split7_0: "(m AND 0x7f) OR push_bit 7 (drop_bit 7 m) = (m :: 64 word)"
proof -
  have m64: "(0x7f :: 64 word) = mask 7"
    by (simp add: mask_eq_exp_minus_1)
  have "bit (m AND mask 7 OR push_bit 7 (drop_bit 7 m)) k = bit m k" for k
    by (cases "k < 7") (auto simp: bit_simps dest: bit_imp_le_length)
  then show ?thesis unfolding m64 by (rule bit_eqI)
qed

lemma split7: "push_bit shift (m AND 0x7f) OR push_bit (shift + 7) (drop_bit 7 m) = push_bit shift (m :: 64 word)"
proof -
  have "push_bit shift (m AND 0x7f) OR push_bit (shift + 7) (drop_bit 7 m) =
        push_bit shift ((m AND 0x7f) OR push_bit 7 (drop_bit 7 m))"
    by (simp add: add.commute)
  then show ?thesis by (simp only: split7_0)
qed

lemma nextLEB128_loop_varint:
  "shift < 64 \<Longrightarrow> unat m < 2 ^ (64 - shift) \<Longrightarrow>
   nextLEB128_loop num shift (h, varint m @ rest) = (Inr (num OR push_bit shift m), (h, rest))"
proof (induction "unat m" arbitrary: m num shift rule: less_induct)
  case less
  show ?case
  proof (cases "drop_bit 7 m = 0")
    case True
    then have v: "varint m = [ucast (m AND 0x7f)]" by (subst varint_unfold) simp
    from True split7_0 [of m] have m: "m AND 0x7f = m" by simp
    have "nextLEB128_loop num shift (h, varint m @ rest) =
          (Inr (num OR push_bit shift (m AND 0x7f)), (h, rest))"
      using less.prems v
      by (subst nextLEB128_loop.simps) (simp add: Let_def last_group_small low7_ucast)
    then show ?thesis by (simp only: m)
  next
    case False
    then have v: "varint m = (0x80 OR ucast (m AND 0x7f)) # varint (drop_bit 7 m)"
      by (subst varint_unfold) simp
    from False have "unat m div 128 \<noteq> 0" by (simp add: unat_drop7 flip: unat_eq_0)
    then have big: "128 \<le> unat m" by simp
    with less.prems have "(2::nat) ^ 7 < 2 ^ (64 - shift)" by simp
    then have "7 < 64 - shift" by (simp only: power_strict_increasing_iff)
    then have sh: "shift + 7 < 64" by simp
    from sh have "64 - shift = 7 + (64 - (shift + 7))" by simp
    then have "(2::nat) ^ (64 - shift) = 2 ^ 7 * 2 ^ (64 - (shift + 7))"
      by (simp only: power_add)
    then have "(2::nat) ^ (64 - shift) = 128 * 2 ^ (64 - (shift + 7))"
      by simp
    with less.prems have "unat m div 128 < 2 ^ (64 - (shift + 7))"
      by (simp add: less_mult_imp_div_less mult.commute)
    then have sm: "unat (drop_bit 7 m) < 2 ^ (64 - (shift + 7))" by (simp add: unat_drop7)
    have "nextLEB128_loop num shift (h, varint m @ rest) =
          nextLEB128_loop (num OR push_bit shift (m AND 0x7f)) (shift + 7) (h, varint (drop_bit 7 m) @ rest)"
      using less.prems v
      by (subst nextLEB128_loop.simps) (simp add: Let_def more_group_big low7_ucast')
    also have "\<dots> = (Inr (num OR push_bit shift (m AND 0x7f) OR push_bit (shift + 7) (drop_bit 7 m)), (h, rest))"
      using less.hyps [OF drop7_less [OF False] sh sm] by (simp add: or.assoc)
    also have "num OR push_bit shift (m AND 0x7f) OR push_bit (shift + 7) (drop_bit 7 m) = num OR push_bit shift m"
      by (simp only: split7)
    finally show ?thesis .
  qed
qed

lemma nextLEB128_varint: "nextLEB128 (h, varint m @ rest) = (Inr m, (h, rest))"
  using nextLEB128_loop_varint [of 0 m 0 h rest] unsigned_less [of m]
  by (simp add: nextLEB128_def)


lemma put_simp [simp]: "put c (w, os) = (w, os @ [c])"
  by (simp add: put_def)

lemma ready_new_handle [simp]: "ready new_handle"
  by (simp add: new_handle_def)

section \<open>The varint encoder\<close>

text \<open>
  C3. \<^verbatim>\<open>writeLEB128\<close> appends \<open>varint n\<close> and nothing else. A value that needs exactly \<open>k\<close>
  groups of 7 bits (it is below \<open>2 ^ (7 * k)\<close>, and \<open>k\<close> is 1 or the value is at least
  \<open>2 ^ (7 * (k - 1))\<close>) is written in exactly \<open>k\<close> bytes. Byte \<open>i\<close> holds in its low 7 bits
  the bits \<open>7 * i\<close> to \<open>7 * i + 6\<close> of the value, so the groups come least significant
  first, and its bit 7 is set exactly when it is not the last byte. 127 takes 1 byte, 128
  takes 2, \<open>2^32 - 1\<close> takes 5 and \<open>2^64 - 1\<close> takes 10.
\<close>

theorem varint_groups:
  "writeLEB128 n (w, os) = (w, os @ varint n) \<and>
   (0 < k \<and> unat n < 2 ^ (7 * k) \<and> (k = 1 \<or> 2 ^ (7 * (k - 1)) \<le> unat n) \<longrightarrow>
      length (varint n) = k) \<and>
   (i < length (varint n) \<longrightarrow>
      varint n ! i AND 0x7f = ucast (drop_bit (7 * i) n AND 0x7f) \<and>
      (bit (varint n ! i) 7 \<longleftrightarrow> i + 1 < length (varint n))) \<and>
   varint 127 = [0x7f] \<and>
   varint 128 = [0x80, 0x01] \<and>
   varint 0xffffffff = [0xff, 0xff, 0xff, 0xff, 0x0f] \<and>
   varint 0xffffffffffffffff = [0xff, 0xff, 0xff, 0xff, 0xff, 0xff, 0xff, 0xff, 0xff, 0x01]"
proof (intro conjI impI)
  show "writeLEB128 n (w, os) = (w, os @ varint n)" by (rule writeLEB128_varint)
next
  assume "0 < k \<and> unat n < 2 ^ (7 * k) \<and> (k = 1 \<or> 2 ^ (7 * (k - 1)) \<le> unat n)"
  then show "length (varint n) = k" using varint_length [of k n] by blast
next
  assume i: "i < length (varint n)"
  from varint_bits [OF i] show "varint n ! i AND 0x7f = ucast (drop_bit (7 * i) n AND 0x7f)"
    by simp
  from varint_bits [OF i] show "bit (varint n ! i) 7 \<longleftrightarrow> i + 1 < length (varint n)"
    by simp
qed (simp_all add: varint_unfold)

text \<open>The value 300 needs two groups: \<open>0xAC\<close> (44 with the continuation bit) and \<open>0x02\<close>.\<close>

theorem varint_groups_witness:
  "(0::nat) < 2 \<and> unat (300 :: 64 word) < 2 ^ (7 * 2) \<and> 2 ^ (7 * (2 - 1)) \<le> unat (300 :: 64 word) \<and>
   length (varint 300) = 2 \<and> (1::nat) < length (varint 300) \<and>
   varint 300 ! 1 AND 0x7f = 2 \<and> \<not> bit (varint 300 ! 1) 7 \<and> varint 300 = [0xAC, 0x02]"
proof -
  have v: "varint 300 = [0xAC, 0x02]" by (simp add: varint_unfold)
  have h: "(0::nat) < 2 \<and> unat (300 :: 64 word) < 2 ^ (7 * 2) \<and> (2 = (1::nat) \<or> 2 ^ (7 * (2 - 1)) \<le> unat (300 :: 64 word))"
    by simp
  from varint_groups [of 300 new_handle "[]" 2 1] h have "length (varint 300) = 2" by blast
  moreover from this varint_groups [of 300 new_handle "[]" 2 1]
  have "varint 300 ! 1 AND 0x7f = ucast (drop_bit (7 * 1) (300 :: 64 word) AND 0x7f) \<and>
        (bit (varint 300 ! 1) 7 \<longleftrightarrow> 1 + 1 < length (varint 300))"
    by simp
  ultimately show ?thesis using v by simp
qed

section \<open>Integers\<close>

text \<open>
  C1. For the least \<^verbatim>\<open>int64_t\<close>, \<^verbatim>\<open>writeInt\<close> writes \<^verbatim>\<open>'-'\<close> and the varint of \<open>2^63\<close>, the
  magnitude \<^verbatim>\<open>(uint64_t)max + 1\<close> computed without overflow, ten bytes; \<^verbatim>\<open>getInt\<close> on these
  bytes returns the least \<^verbatim>\<open>int64_t\<close> again and leaves what follows them unread.
\<close>

theorem int64_min_roundtrip:
  "writeInt int64_min (new_handle, os) = (Inr (), (new_handle, os @ 0x2D # varint (2 ^ 63))) \<and>
   varint (2 ^ 63) = [0x80, 0x80, 0x80, 0x80, 0x80, 0x80, 0x80, 0x80, 0x80, 0x01] \<and>
   unat (int64_max + 1) = 2 ^ 63 \<and>
   getInt (new_handle, 0x2D # varint (2 ^ 63) @ rest) = (Inr int64_min, (new_handle, rest)) \<and>
   sint int64_min = - (2 ^ 63)"
proof (intro conjI)
  show "writeInt int64_min (new_handle, os) = (Inr (), (new_handle, os @ 0x2D # varint (2 ^ 63)))"
    by (simp add: writeInt_def int64_min_def int64_max_def writeLEB128_varint)
  show "varint (2 ^ 63) = [0x80, 0x80, 0x80, 0x80, 0x80, 0x80, 0x80, 0x80, 0x80, 0x01]"
    by (simp add: varint_unfold)
  show "unat (int64_max + 1) = 2 ^ 63"
    by (simp add: int64_max_def)
  show "getInt (new_handle, 0x2D # varint (2 ^ 63) @ rest) = (Inr int64_min, (new_handle, rest))"
    by (simp add: getInt_def nextLEB128_varint int64_min_def)
  show "sint int64_min = - (2 ^ 63)"
    by (simp add: int64_min_def)
qed


lemma sint64: "sint (w::64 word) = (if uint w < 2^63 then uint w else uint w - 2^64)"
proof -
  have s: "sint w = (uint w + 2 ^ 63) mod 2 ^ 64 - 2 ^ 63"
    by (simp add: sint_uint signed_take_bit_eq_take_bit_shift take_bit_eq_mod)
  have b: "0 \<le> uint w" "uint w < 2 ^ 64"
    using uint_bounded [of w] by simp_all
  show ?thesis
  proof (cases "uint w < 2 ^ 63")
    case True
    with b have "(uint w + 2 ^ 63) mod 2 ^ 64 = uint w + 2 ^ 63"
      by (intro mod_pos_pos_trivial) simp_all
    with s True show ?thesis by simp
  next
    case False
    have "(uint w + 2 ^ 63) mod 2 ^ 64 = (uint w + 2 ^ 63 - 2 ^ 64) mod 2 ^ 64"
      by (simp only: minus_mod_self2)
    also from False b have "\<dots> = uint w + 2 ^ 63 - 2 ^ 64"
      by (intro mod_pos_pos_trivial) simp_all
    finally show ?thesis using s False by simp
  qed
qed
lemma unat_ucast_byte: "unat (ucast (a::64 word) :: 8 word) = unat a mod 256"
  by (simp add: unsigned_ucast_eq take_bit_eq_mod)
lemma uminus64: "uint (- (e :: 64 word)) = (if uint e = 0 then 0 else 2 ^ 64 - uint e)"
proof -
  have b: "0 \<le> uint e" "uint e < 2 ^ 64"
    using uint_bounded [of e] by simp_all
  have u: "uint (- e) = (- uint e) mod 2 ^ 64"
    by (simp add: uint_word_ariths)
  show ?thesis
  proof (cases "uint e = 0")
    case True
    with u show ?thesis by simp
  next
    case False
    have "(- uint e) mod 2 ^ 64 = (- uint e + 2 ^ 64) mod 2 ^ 64"
      by (simp only: mod_add_self2)
    also from False b have "\<dots> = - uint e + 2 ^ 64"
      by (intro mod_pos_pos_trivial) (simp_all add: order_less_le)
    finally show ?thesis using u False by simp
  qed
qed

lemma sint_neg_uint: "sint (e :: 64 word) < 0 \<Longrightarrow> uint (- e) = - sint e"
proof -
  assume neg: "sint e < 0"
  have "0 \<le> uint e" by simp
  with neg have "\<not> uint e < 2 ^ 63" by (auto simp: sint64 split: if_splits)
  then have "sint e = uint e - 2 ^ 64" and "uint e \<noteq> 0" by (simp_all add: sint64)
  then show ?thesis by (simp add: uminus64)
qed

lemma sint_nonneg_unat: "0 \<le> sint (a :: 64 word) \<Longrightarrow> sint a = int (unat a)"
proof -
  assume nn: "0 \<le> sint a"
  have "uint a < 2 ^ 64" using uint_bounded [of a] by simp
  with nn have "uint a < 2 ^ 63" by (auto simp: sint64 split: if_splits)
  then show ?thesis by (simp add: sint64)
qed

lemma digit_byte: "unat (a :: 64 word) \<le> 9 \<Longrightarrow> unat (0x30 + ucast a :: byte) = 48 + unat a"
proof -
  assume a: "unat a \<le> 9"
  then have u: "unat (ucast a :: byte) = unat a" by (simp add: unat_ucast_byte)
  have "unat (0x30 + ucast a :: byte) = (48 + unat (ucast a :: byte)) mod 256"
    by (simp add: unat_word_ariths)
  with u a show ?thesis by simp
qed

lemma sint_int64_min: "sint int64_min = - (2 ^ 63)"
  by (simp add: int64_min_def)

text \<open>
  C2. On a ready writer, \<^verbatim>\<open>writeInt\<close> and \<^verbatim>\<open>writeUInt\<close> write the single byte \<^verbatim>\<open>'0' + n\<close> for
  \<open>n\<close> from 0 to 9, and \<^verbatim>\<open>'+'\<close> and the varint of \<open>n\<close> from 10 on; for a negative \<open>n\<close> other than
  the minimum \<^verbatim>\<open>writeInt\<close> writes \<^verbatim>\<open>'-'\<close> and the varint of \<open>- n\<close>, whose unsigned value is the
  magnitude of \<open>n\<close>. The first byte \<^verbatim>\<open>writeUInt\<close> writes, its tag, is never \<^verbatim>\<open>'-'\<close>.
\<close>

theorem integer_tags:
  "ready w \<Longrightarrow>
   (0 \<le> sint a \<and> sint a \<le> 9 \<longrightarrow>
      writeInt a (w, os) = (Inr (), (w, os @ [0x30 + ucast a])) \<and>
      int (unat (0x30 + ucast a :: byte)) = 48 + sint a) \<and>
   (unat b \<le> 9 \<longrightarrow>
      writeUInt b (w, os) = (Inr (), (w, os @ [0x30 + ucast b])) \<and>
      unat (0x30 + ucast b :: byte) = 48 + unat b) \<and>
   (10 \<le> sint c \<longrightarrow> writeInt c (w, os) = (Inr (), (w, os @ 0x2B # varint c))) \<and>
   (10 \<le> unat d \<longrightarrow> writeUInt d (w, os) = (Inr (), (w, os @ 0x2B # varint d))) \<and>
   (sint e < 0 \<and> e \<noteq> int64_min \<longrightarrow>
      writeInt e (w, os) = (Inr (), (w, os @ 0x2D # varint (- e))) \<and> uint (- e) = - sint e) \<and>
   (\<exists>t bs. writeUInt f (w, os) = (Inr (), (w, os @ t # bs)) \<and> t \<noteq> 0x2D)"
proof (intro conjI impI)
  assume w: "ready w"
  {
    assume a: "0 \<le> sint a \<and> sint a \<le> 9"
    then have "uint a \<le> 9" using sint_nonneg_unat [of a] by simp
    then have u: "unat a \<le> 9" by transfer simp
    from a have "a \<noteq> int64_min" using sint_int64_min by auto
    with a w show "writeInt a (w, os) = (Inr (), (w, os @ [0x30 + ucast a]))"
      by (simp add: writeInt_def word_sless_alt word_sle_eq)
    from a digit_byte [OF u] show "int (unat (0x30 + ucast a :: byte)) = 48 + sint a"
      by (simp add: sint_nonneg_unat)
  }
  {
    assume b: "unat b \<le> 9"
    then have "b \<le> 9" by (simp add: word_le_nat_alt)
    with w show "writeUInt b (w, os) = (Inr (), (w, os @ [0x30 + ucast b]))"
      by (simp add: writeUInt_def)
    from b show "unat (0x30 + ucast b :: byte) = 48 + unat b" by (rule digit_byte)
  }
  {
    assume c: "10 \<le> sint c"
    then have "c \<noteq> int64_min" using sint_int64_min by auto
    with c w show "writeInt c (w, os) = (Inr (), (w, os @ 0x2B # varint c))"
      by (simp add: writeInt_def word_sless_alt word_sle_eq writeLEB128_varint)
  }
  {
    assume d: "10 \<le> unat d"
    then have "\<not> d \<le> 9" by (simp add: word_le_nat_alt)
    with w show "writeUInt d (w, os) = (Inr (), (w, os @ 0x2B # varint d))"
      by (simp add: writeUInt_def writeLEB128_varint)
  }
  {
    assume e: "sint e < 0 \<and> e \<noteq> int64_min"
    with w show "writeInt e (w, os) = (Inr (), (w, os @ 0x2D # varint (- e)))"
      by (simp add: writeInt_def word_sless_alt writeLEB128_varint)
    from e show "uint (- e) = - sint e" by (simp add: sint_neg_uint)
  }
  show "\<exists>t bs. writeUInt f (w, os) = (Inr (), (w, os @ t # bs)) \<and> t \<noteq> 0x2D"
  proof (cases "f \<le> 9")
    case True
    then have "unat f \<le> 9" by (simp add: word_le_nat_alt)
    then have "unat (0x30 + ucast f :: byte) = 48 + unat f" by (rule digit_byte)
    then have "unat (0x30 + ucast f :: byte) \<noteq> unat (0x2D :: byte)" by simp
    then have "(0x30 + ucast f :: byte) \<noteq> 0x2D" by metis
    with True w show ?thesis by (simp add: writeUInt_def)
  next
    case False
    with w show ?thesis by (simp add: writeUInt_def writeLEB128_varint)
  qed
qed

text \<open>
  The values of the tests "Single byte integers" and "Multi byte integers", and 45, whose
  varint is the byte \<open>0x2D\<close> after the tag \<^verbatim>\<open>'+'\<close>.
\<close>

theorem integer_tags_witness:
  "ready new_handle \<and>
   0 \<le> sint (7 :: 64 word) \<and> sint (7 :: 64 word) \<le> 9 \<and>
   writeInt 7 (new_handle, []) = (Inr (), (new_handle, [0x37])) \<and>
   unat (9 :: 64 word) \<le> 9 \<and>
   writeUInt 9 (new_handle, []) = (Inr (), (new_handle, [0x39])) \<and>
   10 \<le> sint (10 :: 64 word) \<and>
   writeInt 10 (new_handle, []) = (Inr (), (new_handle, [0x2B, 0x0A])) \<and>
   10 \<le> unat (128 :: 64 word) \<and>
   writeUInt 128 (new_handle, []) = (Inr (), (new_handle, [0x2B, 0x80, 0x01])) \<and>
   sint (- 66 :: 64 word) < 0 \<and> (- 66 :: 64 word) \<noteq> int64_min \<and>
   writeInt (- 66) (new_handle, []) = (Inr (), (new_handle, [0x2D, 0x42])) \<and>
   writeUInt 45 (new_handle, []) = (Inr (), (new_handle, [0x2B, 0x2D]))"
proof -
  have "writeUInt 45 (new_handle, []) = (Inr (), (new_handle, [0x2B, 0x2D]))"
    by (simp add: writeUInt_def writeLEB128_varint varint_unfold)
  with integer_tags [of new_handle 7 "[]" 9 10 128 "- 66" 45] show ?thesis
    by (simp add: varint_unfold int64_min_def)
qed


text \<open>
  C10. Whatever magnitude \<open>m\<close> \<^verbatim>\<open>nextLEB128\<close> returns, \<^verbatim>\<open>getInt\<close> returns a value and no
  error: after \<^verbatim>\<open>'+'\<close> the word \<open>m\<close> itself, which reads as \<open>m - 2^64\<close>, a negative number,
  when \<open>m\<close> is above \<open>2^63 - 1\<close>; after \<^verbatim>\<open>'-'\<close> the word \<open>- m\<close>, the two's complement of \<open>m\<close>.
  Every 64-bit \<open>n\<close> is such a magnitude, that of its own varint.
\<close>

theorem getInt_wraps:
  "ready h \<Longrightarrow> nextLEB128 (h, bs) = (Inr m, s') \<Longrightarrow>
   getInt (h, 0x2B # bs) = (Inr m, s') \<and>
   getInt (h, 0x2D # bs) = (Inr (- m), s') \<and>
   (2 ^ 63 \<le> uint m \<longrightarrow> sint m = uint m - 2 ^ 64 \<and> sint m < 0) \<and>
   (sint (- m) + uint m) mod 2 ^ 64 = 0 \<and>
   getInt (h, 0x2B # varint n @ rest) = (Inr n, (h, rest)) \<and>
   getInt (h, 0x2D # varint n @ rest) = (Inr (- n), (h, rest))"
proof (intro conjI impI)
  assume h: "ready h" and m: "nextLEB128 (h, bs) = (Inr m, s')"
  from h m show "getInt (h, 0x2B # bs) = (Inr m, s')"
    by (simp add: getInt_def)
  from h m show "getInt (h, 0x2D # bs) = (Inr (- m), s')"
    by (simp add: getInt_def)
  from h show "getInt (h, 0x2B # varint n @ rest) = (Inr n, (h, rest))"
    by (simp add: getInt_def nextLEB128_varint)
  from h show "getInt (h, 0x2D # varint n @ rest) = (Inr (- n), (h, rest))"
    by (simp add: getInt_def nextLEB128_varint)
  have b: "uint m < 2 ^ 64" using uint_bounded [of m] by simp
  {
    assume "2 ^ 63 \<le> uint m"
    then have s: "sint m = uint m - 2 ^ 64" by (simp add: sint64)
    then show "sint m = uint m - 2 ^ 64" .
    from s b show "sint m < 0" by simp
  }
  show "(sint (- m) + uint m) mod 2 ^ 64 = 0"
  proof (cases "uint m = 0")
    case True
    then have "m = 0" by (simp add: uint_0_iff)
    then show ?thesis by simp
  next
    case False
    then have u: "uint (- m) = 2 ^ 64 - uint m" by (simp add: uminus64)
    show ?thesis
    proof (cases "uint (- m) < 2 ^ 63")
      case True
      then have "sint (- m) = uint (- m)" by (simp add: sint64)
      with u show ?thesis by simp
    next
      case False
      then have "sint (- m) = uint (- m) - 2 ^ 64" by (simp add: sint64)
      with u show ?thesis by simp
    qed
  qed
qed

text \<open>The magnitude \<open>2^64 - 1\<close>: \<^verbatim>\<open>getInt\<close> returns \<open>-1\<close> after \<^verbatim>\<open>'+'\<close> and 1 after \<^verbatim>\<open>'-'\<close>.\<close>

theorem getInt_wraps_witness:
  "ready new_handle \<and>
   nextLEB128 (new_handle, [0xff, 0xff, 0xff, 0xff, 0xff, 0xff, 0xff, 0xff, 0xff, 0x01]) =
     (Inr 0xffffffffffffffff, (new_handle, [])) \<and>
   getInt (new_handle, [0x2B, 0xff, 0xff, 0xff, 0xff, 0xff, 0xff, 0xff, 0xff, 0xff, 0x01]) =
     (Inr 0xffffffffffffffff, (new_handle, [])) \<and>
   (2 :: int) ^ 63 \<le> uint (0xffffffffffffffff :: 64 word) \<and>
   sint (0xffffffffffffffff :: 64 word) = - 1 \<and>
   getInt (new_handle, [0x2D, 0xff, 0xff, 0xff, 0xff, 0xff, 0xff, 0xff, 0xff, 0xff, 0x01]) =
     (Inr 1, (new_handle, []))"
proof -
  have v: "varint 0xffffffffffffffff = [0xff, 0xff, 0xff, 0xff, 0xff, 0xff, 0xff, 0xff, 0xff, 0x01]"
    by (simp add: varint_unfold)
  have n: "nextLEB128 (new_handle, [0xff, 0xff, 0xff, 0xff, 0xff, 0xff, 0xff, 0xff, 0xff, 0x01]) =
     (Inr 0xffffffffffffffff, (new_handle, []))"
    using nextLEB128_varint [of new_handle "0xffffffffffffffff" "[]"] by (simp add: v)
  from getInt_wraps [OF ready_new_handle n, of 0 "[]"] n show ?thesis
    by simp
qed


section \<open>Floats and doubles\<close>

lemma byte_of_masked:
  "(ucast (drop_bit k (n AND push_bit k (mask 8))) :: byte) = ucast (drop_bit k (n :: 'a :: len word))"
  by (rule bit_eqI) (auto simp: bit_simps dest: bit_imp_le_length)

lemma masks64:
  "(0xff :: 64 word) = push_bit 0 (mask 8)"
  "(0xff00 :: 64 word) = push_bit 8 (mask 8)"
  "(0xff0000 :: 64 word) = push_bit 16 (mask 8)"
  "(0xff000000 :: 64 word) = push_bit 24 (mask 8)"
  "(0xff00000000 :: 64 word) = push_bit 32 (mask 8)"
  "(0xff0000000000 :: 64 word) = push_bit 40 (mask 8)"
  "(0xff000000000000 :: 64 word) = push_bit 48 (mask 8)"
  "(0xff00000000000000 :: 64 word) = push_bit 56 (mask 8)"
  by (simp_all add: mask_eq_exp_minus_1)

lemma masks32:
  "(0xff :: 32 word) = push_bit 0 (mask 8)"
  "(0xff00 :: 32 word) = push_bit 8 (mask 8)"
  "(0xff0000 :: 32 word) = push_bit 16 (mask 8)"
  "(0xff000000 :: 32 word) = push_bit 24 (mask 8)"
  by (simp_all add: mask_eq_exp_minus_1)

lemma bit_byte_at:
  fixes n :: "'a :: len word"
  shows "bit (push_bit s (ucast (ucast (drop_bit s n) :: byte)) :: 'a word) k \<longleftrightarrow>
         s \<le> k \<and> k < s + 8 \<and> bit n k"
  by (auto simp: bit_simps dest: bit_imp_le_length)

lemma join32:
  fixes n :: "32 word"
  shows "push_bit 0 (ucast (ucast (drop_bit 0 n) :: byte)) OR
   push_bit 8 (ucast (ucast (drop_bit 8 n) :: byte)) OR
   push_bit 16 (ucast (ucast (drop_bit 16 n) :: byte)) OR
   push_bit 24 (ucast (ucast (drop_bit 24 n) :: byte)) = n" (is "?l = _")
proof (rule bit_eqI)
  fix k
  assume "possible_bit TYPE(32 word) k"
  then have k: "k < 32" by simp
  then consider "k < 8" | "8 \<le> k" "k < 16" | "16 \<le> k" "k < 24" | "24 \<le> k" "k < 32"
    by linarith
  then show "bit ?l k = bit n k"
    by cases (simp_all only: bit_or_iff bit_byte_at, simp_all)
qed

lemma join64:
  fixes n :: "64 word"
  shows "push_bit 0 (ucast (ucast (drop_bit 0 n) :: byte)) OR
   push_bit 8 (ucast (ucast (drop_bit 8 n) :: byte)) OR
   push_bit 16 (ucast (ucast (drop_bit 16 n) :: byte)) OR
   push_bit 24 (ucast (ucast (drop_bit 24 n) :: byte)) OR
   push_bit 32 (ucast (ucast (drop_bit 32 n) :: byte)) OR
   push_bit 40 (ucast (ucast (drop_bit 40 n) :: byte)) OR
   push_bit 48 (ucast (ucast (drop_bit 48 n) :: byte)) OR
   push_bit 56 (ucast (ucast (drop_bit 56 n) :: byte)) = n" (is "?l = _")
proof (rule bit_eqI)
  fix k
  assume "possible_bit TYPE(64 word) k"
  then have k: "k < 64" by simp
  then consider "k < 8" | "8 \<le> k" "k < 16" | "16 \<le> k" "k < 24" | "24 \<le> k" "k < 32"
    | "32 \<le> k" "k < 40" | "40 \<le> k" "k < 48" | "48 \<le> k" "k < 56" | "56 \<le> k" "k < 64"
    by linarith
  then show "bit ?l k = bit n k"
    by cases (simp_all only: bit_or_iff bit_byte_at, simp_all)
qed

text \<open>
  C5. For every 32-bit and every 64-bit pattern, \<^verbatim>\<open>writeFloat\<close> and \<^verbatim>\<open>writeDouble\<close> write
  the tag and the bytes of the pattern, least significant first, and \<^verbatim>\<open>getFloat\<close> and
  \<^verbatim>\<open>getDouble\<close> on these bytes return the same pattern and leave what follows unread.
  Nothing depends on which pattern it is, so infinities, NaNs and the two zeros come back
  bit for bit.
\<close>

theorem float_roundtrip:
  "ready w \<Longrightarrow> ready r \<Longrightarrow>
   writeFloat f (w, os) =
     (Inr (), (w, os @ [0x66, ucast f, ucast (drop_bit 8 f), ucast (drop_bit 16 f), ucast (drop_bit 24 f)])) \<and>
   getFloat (r, [0x66, ucast f, ucast (drop_bit 8 f), ucast (drop_bit 16 f), ucast (drop_bit 24 f)] @ rest) =
     (Inr f, (r, rest)) \<and>
   writeDouble d (w, os) =
     (Inr (), (w, os @ [0x64, ucast d, ucast (drop_bit 8 d), ucast (drop_bit 16 d), ucast (drop_bit 24 d),
                        ucast (drop_bit 32 d), ucast (drop_bit 40 d), ucast (drop_bit 48 d), ucast (drop_bit 56 d)])) \<and>
   getDouble (r, [0x64, ucast d, ucast (drop_bit 8 d), ucast (drop_bit 16 d), ucast (drop_bit 24 d),
                  ucast (drop_bit 32 d), ucast (drop_bit 40 d), ucast (drop_bit 48 d), ucast (drop_bit 56 d)] @ rest) =
     (Inr d, (r, rest))"
proof (intro conjI)
  assume w: "ready w" and r: "ready r"
  show "writeFloat f (w, os) =
     (Inr (), (w, os @ [0x66, ucast f, ucast (drop_bit 8 f), ucast (drop_bit 16 f), ucast (drop_bit 24 f)]))"
    using w byte_of_masked [of 0 f] byte_of_masked [of 8 f] byte_of_masked [of 16 f] byte_of_masked [of 24 f]
    unfolding writeFloat_def masks32 by simp
  show "getFloat (r, [0x66, ucast f, ucast (drop_bit 8 f), ucast (drop_bit 16 f), ucast (drop_bit 24 f)] @ rest) =
     (Inr f, (r, rest))"
    using r join32 [of f] by (simp add: getFloat_def bindE_def Let_def or.assoc)
  show "writeDouble d (w, os) =
     (Inr (), (w, os @ [0x64, ucast d, ucast (drop_bit 8 d), ucast (drop_bit 16 d), ucast (drop_bit 24 d),
                        ucast (drop_bit 32 d), ucast (drop_bit 40 d), ucast (drop_bit 48 d), ucast (drop_bit 56 d)]))"
    using w byte_of_masked [of 0 d] byte_of_masked [of 8 d] byte_of_masked [of 16 d] byte_of_masked [of 24 d]
      byte_of_masked [of 32 d] byte_of_masked [of 40 d] byte_of_masked [of 48 d] byte_of_masked [of 56 d]
    unfolding writeDouble_def masks64 by simp
  show "getDouble (r, [0x64, ucast d, ucast (drop_bit 8 d), ucast (drop_bit 16 d), ucast (drop_bit 24 d),
                  ucast (drop_bit 32 d), ucast (drop_bit 40 d), ucast (drop_bit 48 d), ucast (drop_bit 56 d)] @ rest) =
     (Inr d, (r, rest))"
    using r join64 [of d] by (simp add: getDouble_def bindE_def Let_def or.assoc)
qed


text \<open>The float \<open>+\<infinity>\<close> of the test "Floats", and the double \<open>-0.0\<close>.\<close>

theorem float_roundtrip_witness:
  "ready new_handle \<and>
   writeFloat 0x7f800000 (new_handle, []) = (Inr (), (new_handle, [0x66, 0x00, 0x00, 0x80, 0x7f])) \<and>
   getFloat (new_handle, [0x66, 0x00, 0x00, 0x80, 0x7f]) = (Inr 0x7f800000, (new_handle, [])) \<and>
   writeDouble 0x8000000000000000 (new_handle, []) =
     (Inr (), (new_handle, [0x64, 0x00, 0x00, 0x00, 0x00, 0x00, 0x00, 0x00, 0x80])) \<and>
   getDouble (new_handle, [0x64, 0x00, 0x00, 0x00, 0x00, 0x00, 0x00, 0x00, 0x80]) =
     (Inr 0x8000000000000000, (new_handle, []))"
proof -
  have f: "(ucast (0x7f800000 :: 32 word) :: byte) = 0x00"
    "(ucast (drop_bit 8 (0x7f800000 :: 32 word)) :: byte) = 0x00"
    "(ucast (drop_bit 16 (0x7f800000 :: 32 word)) :: byte) = 0x80"
    "(ucast (drop_bit 24 (0x7f800000 :: 32 word)) :: byte) = 0x7f"
    by simp_all
  have d: "(ucast (0x8000000000000000 :: 64 word) :: byte) = 0x00"
    "(ucast (drop_bit 8 (0x8000000000000000 :: 64 word)) :: byte) = 0x00"
    "(ucast (drop_bit 16 (0x8000000000000000 :: 64 word)) :: byte) = 0x00"
    "(ucast (drop_bit 24 (0x8000000000000000 :: 64 word)) :: byte) = 0x00"
    "(ucast (drop_bit 32 (0x8000000000000000 :: 64 word)) :: byte) = 0x00"
    "(ucast (drop_bit 40 (0x8000000000000000 :: 64 word)) :: byte) = 0x00"
    "(ucast (drop_bit 48 (0x8000000000000000 :: 64 word)) :: byte) = 0x00"
    "(ucast (drop_bit 56 (0x8000000000000000 :: 64 word)) :: byte) = 0x80"
    by simp_all
  from float_roundtrip [of new_handle new_handle "0x7f800000" "[]" "[]" "0x8000000000000000"]
  show ?thesis
    unfolding f d by simp
qed



section \<open>The ready discipline\<close>

lemma writeScalar_suspended:
  "\<not> ready w \<Longrightarrow> writeScalar v (w, os) = (Inl LogicError, (w, os))"
  by (cases v)
     (simp_all add: writeTrue_def writeFalse_def writeBool_def writeNull_def writeString_def
        writeFloat_def writeDouble_def writeBinary_def writeInt_def writeUInt_def)

lemma writeScalar_ready:
  "ready w \<Longrightarrow> \<exists>bs. writeScalar v (w, os) = (Inr (), (w, os @ bs)) \<and> bs \<noteq> []"
proof (cases v)
  case (SBool b)
  assume "ready w"
  with SBool show ?thesis
    by (cases b) (simp_all add: writeBool_def writeTrue_def writeFalse_def)
next
  case (SString str)
  assume "ready w"
  with SString show ?thesis by (simp add: writeString_def put_cstr_def)
next
  case (SBinary data)
  assume "ready w"
  with SBinary show ?thesis by (simp add: writeBinary_def put_bytes_def writeLEB128_varint)
next
  case (SInt num)
  assume "ready w"
  with SInt show ?thesis by (simp add: writeInt_def writeLEB128_varint)
next
  case (SUInt num)
  assume "ready w"
  with SUInt show ?thesis by (simp add: writeUInt_def writeLEB128_varint)
qed (simp_all add: writeTrue_def writeFalse_def writeNull_def writeFloat_def writeDouble_def)

text \<open>
  C6. A scalar write on a handle that is not ready fails with \<^verbatim>\<open>LogicError\<close>. Inside the
  callback of \<^verbatim>\<open>writeArray\<close> or \<^verbatim>\<open>writeObject\<close> the handle the scope was opened from is not
  ready, so a callback that makes any scalar write on that handle makes the whole call fail
  with \<^verbatim>\<open>LogicError\<close>, the opening tag written and the handle left not ready.
  \<^verbatim>\<open>LogicError\<close> is not a \<^verbatim>\<open>ParseError\<close>.
\<close>

theorem suspended_writer_logic_error:
  "(\<not> ready w \<longrightarrow> writeScalar v (w, os) = (Inl LogicError, (w, os))) \<and>
   (ready w \<longrightarrow>
      writeArray (\<lambda>child. writeScalar v) (w, os) =
        (Inl LogicError, (w\<lparr>ready := False\<rparr>, os @ [0x5B])) \<and>
      writeObject (writeScalar v) (w, os) =
        (Inl LogicError, (w\<lparr>ready := False\<rparr>, os @ [0x7B]))) \<and>
   LogicError \<noteq> ParseError msg"
  by (simp add: writeArray_def writeObject_def Let_def writeScalar_suspended)

text \<open>\<^verbatim>\<open>writeInt(10)\<close> on the top-level writer inside its own array or object scope.\<close>

theorem suspended_writer_logic_error_witness:
  "\<not> ready \<lparr>ready = False\<rparr> \<and>
   writeScalar (SInt 10) (\<lparr>ready = False\<rparr>, [0x5B]) = (Inl LogicError, (\<lparr>ready = False\<rparr>, [0x5B])) \<and>
   ready new_handle \<and>
   writeArray (\<lambda>child. writeScalar (SInt 10)) (new_handle, []) =
     (Inl LogicError, (\<lparr>ready = False\<rparr>, [0x5B])) \<and>
   writeObject (writeScalar (SInt 10)) (new_handle, []) =
     (Inl LogicError, (\<lparr>ready = False\<rparr>, [0x7B]))"
  using suspended_writer_logic_error [of "\<lparr>ready = False\<rparr>" "SInt 10" "[0x5B]"]
    suspended_writer_logic_error [of new_handle "SInt 10" "[]"]
  by (simp add: new_handle_def)


text \<open>
  C9 as stated fails: in the test "Logic error checking" \<^verbatim>\<open>writeArray\<close> fails with
  \<^verbatim>\<open>LogicError\<close>, thrown by the callback, after it has written \<^verbatim>\<open>'['\<close>.
\<close>

theorem logic_error_after_open_tag:
  "fst (writeArray write_to_toplevel (new_handle, [])) = Inl LogicError \<and>
   snd (snd (writeArray write_to_toplevel (new_handle, []))) = [0x5B] \<and>
   snd (snd (writeArray write_to_toplevel (new_handle, []))) \<noteq> []"
  by (simp add: writeArray_def write_to_toplevel_def Let_def writeInt_def new_handle_def)


text \<open>
  C9, amended. Every write operation checks \<^verbatim>\<open>ready_\<close> before it writes: called on a handle
  that is not ready it fails with \<^verbatim>\<open>LogicError\<close> and the stream and the handle are unchanged.
  A scalar write fails in no other way. \<^verbatim>\<open>writeArray\<close> and \<^verbatim>\<open>writeObject\<close> on a ready handle
  run the callback after the opening tag is written, and an error the callback throws is the
  error of the call, with the stream as the callback left it.
\<close>

theorem ready_check_first:
  "(\<not> ready w \<longrightarrow>
      writeScalar v (w, os) = (Inl LogicError, (w, os)) \<and>
      writeArray func (w, os) = (Inl LogicError, (w, os)) \<and>
      writeObject func' (w, os) = (Inl LogicError, (w, os))) \<and>
   (writeScalar v (w, os) = (Inl e, s') \<longrightarrow> e = LogicError \<and> s' = (w, os) \<and> \<not> ready w) \<and>
   (ready w \<and> func new_handle (w\<lparr>ready := False\<rparr>, os @ [0x5B]) = (Inl e', s'') \<longrightarrow>
      writeArray func (w, os) = (Inl e', s'')) \<and>
   (ready w \<and> func' (w\<lparr>ready := False\<rparr>, os @ [0x7B]) = (Inl e', s'') \<longrightarrow>
      writeObject func' (w, os) = (Inl e', s''))"
proof (intro conjI impI)
  assume "\<not> ready w"
  then show "writeScalar v (w, os) = (Inl LogicError, (w, os))"
    by (rule writeScalar_suspended)
  from \<open>\<not> ready w\<close> show "writeArray func (w, os) = (Inl LogicError, (w, os))"
    by (simp add: writeArray_def)
  from \<open>\<not> ready w\<close> show "writeObject func' (w, os) = (Inl LogicError, (w, os))"
    by (simp add: writeObject_def)
next
  assume f: "writeScalar v (w, os) = (Inl e, s')"
  have nr: "\<not> ready w"
  proof
    assume "ready w"
    from writeScalar_ready [OF this, of v os] f show False by auto
  qed
  then show "\<not> ready w" .
  from writeScalar_suspended [OF nr, of v os] f show "e = LogicError" and "s' = (w, os)"
    by simp_all
next
  assume "ready w \<and> func new_handle (w\<lparr>ready := False\<rparr>, os @ [0x5B]) = (Inl e', s'')"
  then show "writeArray func (w, os) = (Inl e', s'')"
    by (simp add: writeArray_def Let_def)
next
  assume "ready w \<and> func' (w\<lparr>ready := False\<rparr>, os @ [0x7B]) = (Inl e', s'')"
  then show "writeObject func' (w, os) = (Inl e', s'')"
    by (simp add: writeObject_def Let_def)
qed

text \<open>A suspended handle, and the two callbacks of the test on a ready one.\<close>

theorem ready_check_first_witness:
  "\<not> ready \<lparr>ready = False\<rparr> \<and>
   writeScalar SNull (\<lparr>ready = False\<rparr>, [0x5B]) = (Inl LogicError, (\<lparr>ready = False\<rparr>, [0x5B])) \<and>
   writeArray write_true_element (\<lparr>ready = False\<rparr>, [0x5B]) = (Inl LogicError, (\<lparr>ready = False\<rparr>, [0x5B])) \<and>
   writeObject write_to_toplevel_object (\<lparr>ready = False\<rparr>, [0x5B]) = (Inl LogicError, (\<lparr>ready = False\<rparr>, [0x5B])) \<and>
   ready new_handle \<and>
   write_to_toplevel new_handle (new_handle\<lparr>ready := False\<rparr>, [] @ [0x5B]) = (Inl LogicError, (\<lparr>ready = False\<rparr>, [0x5B])) \<and>
   writeArray write_to_toplevel (new_handle, []) = (Inl LogicError, (\<lparr>ready = False\<rparr>, [0x5B])) \<and>
   write_to_toplevel_object (new_handle\<lparr>ready := False\<rparr>, [] @ [0x7B]) = (Inl LogicError, (\<lparr>ready = False\<rparr>, [0x7B])) \<and>
   writeObject write_to_toplevel_object (new_handle, []) = (Inl LogicError, (\<lparr>ready = False\<rparr>, [0x7B]))"
proof -
  have a: "write_to_toplevel new_handle (new_handle\<lparr>ready := False\<rparr>, [] @ [0x5B]) = (Inl LogicError, (\<lparr>ready = False\<rparr>, [0x5B]))"
    by (simp add: write_to_toplevel_def writeInt_def new_handle_def)
  have b: "write_to_toplevel_object (new_handle\<lparr>ready := False\<rparr>, [] @ [0x7B]) = (Inl LogicError, (\<lparr>ready = False\<rparr>, [0x7B]))"
    by (simp add: write_to_toplevel_object_def writeInt_def new_handle_def)
  have c: "writeScalar SNull (\<lparr>ready = False\<rparr>, [0x5B]) = (Inl LogicError, (\<lparr>ready = False\<rparr>, [0x5B]))"
    by (simp add: writeNull_def)
  from ready_check_first [of "\<lparr>ready = False\<rparr>" SNull "[0x5B]" write_true_element write_to_toplevel_object LogicError "(\<lparr>ready = False\<rparr>, [0x5B])"] c
    ready_check_first [of new_handle SNull "[]" write_to_toplevel write_to_toplevel_object _ _ LogicError "(\<lparr>ready = False\<rparr>, [0x5B])"]
    ready_check_first [of new_handle SNull "[]" write_to_toplevel write_to_toplevel_object _ _ LogicError "(\<lparr>ready = False\<rparr>, [0x7B])"]
    a b
  show ?thesis by simp
qed

section \<open>Scopes and their terminators\<close>

text \<open>
  C8 as stated fails. On the write side a callback that throws ends \<^verbatim>\<open>writeObject\<close> before
  \<^verbatim>\<open>'}'\<close> is written. On the read side, on the input \<^verbatim>\<open>[T]\<close>, a callback that returns
  without reading the element makes \<^verbatim>\<open>getArray\<close> read \<^verbatim>\<open>'T'\<close> where it expects the terminator:
  it throws, and \<^verbatim>\<open>']'\<close> stays unread.
\<close>

theorem terminator_missing_on_early_exit:
  "writeObject write_to_toplevel_object (new_handle, []) = (Inl LogicError, (\<lparr>ready = False\<rparr>, [0x7B])) \<and>
   count_list (snd (snd (writeObject write_to_toplevel_object (new_handle, [])))) 0x7D = 0 \<and>
   getArray return_at_once (new_handle, [0x5B, 0x54, 0x5D]) =
     Some (Inl (ParseError (''getArray: Expected ']'' @ [CHR 0x27])), (new_handle, [0x5D]))"
  by (simp add: writeObject_def write_to_toplevel_object_def writeInt_def Let_def new_handle_def
        getArray_def getArray_enter_def getArray_leave_def return_at_once_def)

text \<open>
  C8, amended. When the callback returns, \<^verbatim>\<open>writeArray\<close> and \<^verbatim>\<open>writeObject\<close> write the
  terminator once, after what the callback wrote, and the handle is ready again.
  \<^verbatim>\<open>getArray\<close> and \<^verbatim>\<open>getObject\<close>, when the callback returns, read the next byte of the
  input, whatever the callback has read: at the end of input they fail with the
  \<^verbatim>\<open>ParseError\<close> "Unexpected EOF" and consume nothing; otherwise they consume that one
  byte, succeed when its value is the terminator and fail with a \<^verbatim>\<open>ParseError\<close> when it is
  not. When the callback throws, the call throws the same error and writes or reads
  nothing more.
\<close>

theorem terminator_after_callback_returns:
  "ready w \<Longrightarrow>
   (func new_handle (w\<lparr>ready := False\<rparr>, os @ [0x5B]) = (Inr (), (w', os')) \<longrightarrow>
      writeArray func (w, os) = (Inr (), (w'\<lparr>ready := True\<rparr>, os' @ [0x5D]))) \<and>
   (func new_handle (w\<lparr>ready := False\<rparr>, os @ [0x5B]) = (Inl e, s') \<longrightarrow>
      writeArray func (w, os) = (Inl e, s')) \<and>
   (ofunc (w\<lparr>ready := False\<rparr>, os @ [0x7B]) = (Inr (), (w', os')) \<longrightarrow>
      writeObject ofunc (w, os) = (Inr (), (w'\<lparr>ready := True\<rparr>, os' @ [0x7D]))) \<and>
   (ofunc (w\<lparr>ready := False\<rparr>, os @ [0x7B]) = (Inl e, s') \<longrightarrow>
      writeObject ofunc (w, os) = (Inl e, s')) \<and>
   (rfunc (w\<lparr>ready := False\<rparr>, cs) = Some (Inr (), (r', c # cs')) \<longrightarrow>
      getArray rfunc (w, 0x5B # cs) =
        Some (if c \<noteq> 0x5D then (Inl (ParseError (''getArray: Expected ']'' @ [CHR 0x27])), (r'\<lparr>ready := True\<rparr>, cs'))
              else (Inr (), (r'\<lparr>ready := True\<rparr>, cs')))) \<and>
   (rfunc (w\<lparr>ready := False\<rparr>, cs) = Some (Inl e, s') \<longrightarrow>
      getArray rfunc (w, 0x5B # cs) = Some (Inl e, s')) \<and>
   (rfunc (w\<lparr>ready := False\<rparr>, cs) = Some (Inr (), (r', c # cs')) \<longrightarrow>
      getObject rfunc (w, 0x7B # cs) =
        Some (if c \<noteq> 0x7D then (Inl (ParseError (''getObject: Expected '}'' @ [CHR 0x27])), (r'\<lparr>ready := True\<rparr>, cs'))
              else (Inr (), (r'\<lparr>ready := True\<rparr>, cs')))) \<and>
   (rfunc (w\<lparr>ready := False\<rparr>, cs) = Some (Inl e, s') \<longrightarrow>
      getObject rfunc (w, 0x7B # cs) = Some (Inl e, s')) \<and>
   (rfunc (w\<lparr>ready := False\<rparr>, cs) = Some (Inr (), (r', [])) \<longrightarrow>
      getArray rfunc (w, 0x5B # cs) =
        Some (Inl (ParseError ''Unexpected EOF''), (r'\<lparr>ready := True\<rparr>, []))) \<and>
   (rfunc (w\<lparr>ready := False\<rparr>, cs) = Some (Inr (), (r', [])) \<longrightarrow>
      getObject rfunc (w, 0x7B # cs) =
        Some (Inl (ParseError ''Unexpected EOF''), (r'\<lparr>ready := True\<rparr>, [])))"
  by (simp add: writeArray_def writeObject_def Let_def getArray_def getArray_enter_def
        getArray_leave_def getObject_def getObject_enter_def getObject_leave_def)


text \<open>
  \<^verbatim>\<open>[T]\<close> and \<^verbatim>\<open>{x<00>2}\<close> written, \<^verbatim>\<open>[]\<close> and \<^verbatim>\<open>{}\<close> read, and the throwing callbacks.
  Then a callback that reads nothing: on \<^verbatim>\<open>[\<close> and \<^verbatim>\<open>{\<close> alone the closing read meets the
  end of input, on \<^verbatim>\<open>[T]\<close> it meets \<^verbatim>\<open>'T'\<close>, and on \<^verbatim>\<open>{}<00>T}\<close>, the bytes of an object
  whose key is the one character \<^verbatim>\<open>}\<close>, it takes the key byte for the terminator and
  \<^verbatim>\<open>getObject\<close> returns.
\<close>

theorem terminator_after_callback_returns_witness:
  "ready new_handle \<and>
   write_true_element new_handle (new_handle\<lparr>ready := False\<rparr>, [] @ [0x5B]) = (Inr (), (\<lparr>ready = False\<rparr>, [0x5B, 0x54])) \<and>
   writeArray write_true_element (new_handle, []) = (Inr (), (new_handle, [0x5B, 0x54, 0x5D])) \<and>
   write_to_toplevel new_handle (new_handle\<lparr>ready := False\<rparr>, [] @ [0x5B]) = (Inl LogicError, (\<lparr>ready = False\<rparr>, [0x5B])) \<and>
   writeArray write_to_toplevel (new_handle, []) = (Inl LogicError, (\<lparr>ready = False\<rparr>, [0x5B])) \<and>
   write_x_entry (new_handle\<lparr>ready := False\<rparr>, [] @ [0x7B]) = (Inr (), (\<lparr>ready = False\<rparr>, [0x7B, 0x78, 0x00, 0x32])) \<and>
   writeObject write_x_entry (new_handle, []) = (Inr (), (new_handle, [0x7B, 0x78, 0x00, 0x32, 0x7D])) \<and>
   write_to_toplevel_object (new_handle\<lparr>ready := False\<rparr>, [] @ [0x7B]) = (Inl LogicError, (\<lparr>ready = False\<rparr>, [0x7B])) \<and>
   writeObject write_to_toplevel_object (new_handle, []) = (Inl LogicError, (\<lparr>ready = False\<rparr>, [0x7B])) \<and>
   return_at_once (new_handle\<lparr>ready := False\<rparr>, [0x5D]) = Some (Inr (), (\<lparr>ready = False\<rparr>, [0x5D])) \<and>
   getArray return_at_once (new_handle, [0x5B, 0x5D]) = Some (Inr (), (new_handle, [])) \<and>
   return_at_once (new_handle\<lparr>ready := False\<rparr>, [0x7D]) = Some (Inr (), (\<lparr>ready = False\<rparr>, [0x7D])) \<and>
   getObject return_at_once (new_handle, [0x7B, 0x7D]) = Some (Inr (), (new_handle, [])) \<and>
   read_bool_element (new_handle\<lparr>ready := False\<rparr>, [0x4E, 0x5D]) =
     Some (Inl (ParseError (''getBool: Expected 'T' or 'F'' @ [CHR 0x27])), (\<lparr>ready = False\<rparr>, [0x5D])) \<and>
   getArray read_bool_element (new_handle, [0x5B, 0x4E, 0x5D]) =
     Some (Inl (ParseError (''getBool: Expected 'T' or 'F'' @ [CHR 0x27])), (\<lparr>ready = False\<rparr>, [0x5D])) \<and>
   getObject read_bool_element (new_handle, [0x7B, 0x4E, 0x5D]) =
     Some (Inl (ParseError (''getBool: Expected 'T' or 'F'' @ [CHR 0x27])), (\<lparr>ready = False\<rparr>, [0x5D])) \<and>
   return_at_once (new_handle\<lparr>ready := False\<rparr>, []) = Some (Inr (), (\<lparr>ready = False\<rparr>, [])) \<and>
   getArray return_at_once (new_handle, [0x5B]) =
     Some (Inl (ParseError ''Unexpected EOF''), (new_handle, [])) \<and>
   getObject return_at_once (new_handle, [0x7B]) =
     Some (Inl (ParseError ''Unexpected EOF''), (new_handle, [])) \<and>
   return_at_once (new_handle\<lparr>ready := False\<rparr>, [0x54, 0x5D]) = Some (Inr (), (\<lparr>ready = False\<rparr>, [0x54, 0x5D])) \<and>
   getArray return_at_once (new_handle, [0x5B, 0x54, 0x5D]) =
     Some (Inl (ParseError (''getArray: Expected ']'' @ [CHR 0x27])), (new_handle, [0x5D])) \<and>
   return_at_once (new_handle\<lparr>ready := False\<rparr>, [0x7D, 0x00, 0x54, 0x7D]) =
     Some (Inr (), (\<lparr>ready = False\<rparr>, [0x7D, 0x00, 0x54, 0x7D])) \<and>
   getObject return_at_once (new_handle, [0x7B, 0x7D, 0x00, 0x54, 0x7D]) =
     Some (Inr (), (new_handle, [0x00, 0x54, 0x7D]))"
proof -
  have a: "write_true_element new_handle (new_handle\<lparr>ready := False\<rparr>, [] @ [0x5B]) = (Inr (), (\<lparr>ready = False\<rparr>, [0x5B, 0x54]))"
    by (simp add: write_true_element_def on_handle_def writeTrue_def new_handle_def)
  have b: "write_to_toplevel new_handle (new_handle\<lparr>ready := False\<rparr>, [] @ [0x5B]) = (Inl LogicError, (\<lparr>ready = False\<rparr>, [0x5B]))"
    by (simp add: write_to_toplevel_def writeInt_def new_handle_def)
  have c: "write_x_entry (new_handle\<lparr>ready := False\<rparr>, [] @ [0x7B]) = (Inr (), (\<lparr>ready = False\<rparr>, [0x7B, 0x78, 0x00, 0x32]))"
    by (simp add: write_x_entry_def ObjectWriter_key_def put_cstr_def on_handle_def writeInt_def
          new_handle_def int64_min_def word_sless_alt word_sle_eq)
  have d: "write_to_toplevel_object (new_handle\<lparr>ready := False\<rparr>, [] @ [0x7B]) = (Inl LogicError, (\<lparr>ready = False\<rparr>, [0x7B]))"
    by (simp add: write_to_toplevel_object_def writeInt_def new_handle_def)
  have e: "return_at_once (new_handle\<lparr>ready := False\<rparr>, [0x5D]) = Some (Inr (), (\<lparr>ready = False\<rparr>, [0x5D]))"
    "return_at_once (new_handle\<lparr>ready := False\<rparr>, [0x7D]) = Some (Inr (), (\<lparr>ready = False\<rparr>, [0x7D]))"
    by (simp_all add: return_at_once_def new_handle_def)
  have f: "read_bool_element (new_handle\<lparr>ready := False\<rparr>, [0x4E, 0x5D]) =
     Some (Inl (ParseError (''getBool: Expected 'T' or 'F'' @ [CHR 0x27])), (\<lparr>ready = False\<rparr>, [0x5D]))"
    by (simp add: read_bool_element_def on_handle_def ArrayReader_next_def getBool_def discard_def new_handle_def)
  note t = terminator_after_callback_returns [OF ready_new_handle]
  from t [of write_true_element "[]" "\<lparr>ready = False\<rparr>" "[0x5B, 0x54]"] a
  have 1: "writeArray write_true_element (new_handle, []) = (Inr (), (new_handle, [0x5B, 0x54, 0x5D]))"
    by (simp add: new_handle_def)
  from t [of write_to_toplevel "[]" _ _ LogicError "(\<lparr>ready = False\<rparr>, [0x5B])"] b
  have 2: "writeArray write_to_toplevel (new_handle, []) = (Inl LogicError, (\<lparr>ready = False\<rparr>, [0x5B]))"
    by simp
  from t [of _ "[]" "\<lparr>ready = False\<rparr>" "[0x7B, 0x78, 0x00, 0x32]" _ _ write_x_entry] c
  have 3: "writeObject write_x_entry (new_handle, []) = (Inr (), (new_handle, [0x7B, 0x78, 0x00, 0x32, 0x7D]))"
    by (simp add: new_handle_def)
  from t [of _ "[]" _ _ LogicError "(\<lparr>ready = False\<rparr>, [0x7B])" write_to_toplevel_object] d
  have 4: "writeObject write_to_toplevel_object (new_handle, []) = (Inl LogicError, (\<lparr>ready = False\<rparr>, [0x7B]))"
    by simp
  from t [of _ _ _ _ _ _ _ return_at_once "[0x5D]" "\<lparr>ready = False\<rparr>" "0x5D" "[]"] e
  have 5: "getArray return_at_once (new_handle, [0x5B, 0x5D]) = Some (Inr (), (new_handle, []))"
    by (simp add: new_handle_def)
  from t [of _ _ _ _ _ _ _ return_at_once "[0x7D]" "\<lparr>ready = False\<rparr>" "0x7D" "[]"] e
  have 6: "getObject return_at_once (new_handle, [0x7B, 0x7D]) = Some (Inr (), (new_handle, []))"
    by (simp add: new_handle_def)
  from t [of _ _ _ _ "ParseError (''getBool: Expected 'T' or 'F'' @ [CHR 0x27])" "(\<lparr>ready = False\<rparr>, [0x5D])" _ read_bool_element "[0x4E, 0x5D]"] f
  have 7: "getArray read_bool_element (new_handle, [0x5B, 0x4E, 0x5D]) =
     Some (Inl (ParseError (''getBool: Expected 'T' or 'F'' @ [CHR 0x27])), (\<lparr>ready = False\<rparr>, [0x5D]))"
    and 8: "getObject read_bool_element (new_handle, [0x7B, 0x4E, 0x5D]) =
     Some (Inl (ParseError (''getBool: Expected 'T' or 'F'' @ [CHR 0x27])), (\<lparr>ready = False\<rparr>, [0x5D]))"
    by simp_all
  have g: "return_at_once (new_handle\<lparr>ready := False\<rparr>, []) = Some (Inr (), (\<lparr>ready = False\<rparr>, []))"
    "return_at_once (new_handle\<lparr>ready := False\<rparr>, [0x54, 0x5D]) = Some (Inr (), (\<lparr>ready = False\<rparr>, [0x54, 0x5D]))"
    "return_at_once (new_handle\<lparr>ready := False\<rparr>, [0x7D, 0x00, 0x54, 0x7D]) =
       Some (Inr (), (\<lparr>ready = False\<rparr>, [0x7D, 0x00, 0x54, 0x7D]))"
    by (simp_all add: return_at_once_def new_handle_def)
  from t [of _ _ _ _ _ _ _ return_at_once "[]" "\<lparr>ready = False\<rparr>"] g
  have 9: "getArray return_at_once (new_handle, [0x5B]) =
     Some (Inl (ParseError ''Unexpected EOF''), (new_handle, []))"
    and 10: "getObject return_at_once (new_handle, [0x7B]) =
     Some (Inl (ParseError ''Unexpected EOF''), (new_handle, []))"
    by (simp_all add: new_handle_def)
  from t [of _ _ _ _ _ _ _ return_at_once "[0x54, 0x5D]" "\<lparr>ready = False\<rparr>" "0x54" "[0x5D]"] g
  have 11: "getArray return_at_once (new_handle, [0x5B, 0x54, 0x5D]) =
     Some (Inl (ParseError (''getArray: Expected ']'' @ [CHR 0x27])), (new_handle, [0x5D]))"
    by (simp add: new_handle_def)
  from t [of _ _ _ _ _ _ _ return_at_once "[0x7D, 0x00, 0x54, 0x7D]" "\<lparr>ready = False\<rparr>" "0x7D" "[0x00, 0x54, 0x7D]"] g
  have 12: "getObject return_at_once (new_handle, [0x7B, 0x7D, 0x00, 0x54, 0x7D]) =
     Some (Inr (), (new_handle, [0x00, 0x54, 0x7D]))"
    by (simp add: new_handle_def)
  from a b c d e f g 1 2 3 4 5 6 7 8 9 10 11 12 show ?thesis by simp
qed

section \<open>Truncated input\<close>

lemma ArrayReader_all_end:
  "\<not> ArrayReader_hasNext s \<Longrightarrow> ArrayReader_all func s = Some (Inr (), s)"
  by (subst ArrayReader_all.simps) simp

text \<open>
  C7. On the input \<^verbatim>\<open>[\<close> and nothing more, \<^verbatim>\<open>readArray\<close> fails with the \<^verbatim>\<open>ParseError\<close>
  "Unexpected EOF" whatever its callback: \<^verbatim>\<open>hasNext\<close> is false, and reading the closing
  \<^verbatim>\<open>']'\<close> finds the end of input. \<^verbatim>\<open>getArray\<close> fails: with "Unexpected EOF" when its
  callback returns, with the callback's error when it throws; and every read of a first
  element on the child reader, at the end of input, throws a \<^verbatim>\<open>ParseError\<close>.
\<close>

theorem truncated_array_parse_error:
  "ready r \<Longrightarrow>
   readArray func (r, [0x5B]) = Some (Inl (ParseError ''Unexpected EOF''), (r, [])) \<and>
   (cb (r\<lparr>ready := False\<rparr>, []) = Some (Inr (), (r', [])) \<longrightarrow>
      getArray cb (r, [0x5B]) = Some (Inl (ParseError ''Unexpected EOF''), (r'\<lparr>ready := True\<rparr>, []))) \<and>
   (cb (r\<lparr>ready := False\<rparr>, []) = Some (Inl e, s') \<longrightarrow> getArray cb (r, [0x5B]) = Some (Inl e, s')) \<and>
   \<not> ArrayReader_hasNext (r\<lparr>ready := False\<rparr>, []) \<and>
   getType (ArrayReader_next, []) = (Inl (ParseError ''Unexpected EOF''), (ArrayReader_next, [])) \<and>
   getBool (ArrayReader_next, []) = (Inl (ParseError (''getBool: Expected 'T' or 'F'' @ [CHR 0x27])), (ArrayReader_next, [])) \<and>
   getNil (ArrayReader_next, []) = (Inl (ParseError (''skipNil: Expected 'N'' @ [CHR 0x27])), (ArrayReader_next, [])) \<and>
   getString (ArrayReader_next, []) = (Inl (ParseError (''getString: Expected 'S'' @ [CHR 0x27])), (ArrayReader_next, [])) \<and>
   skipString (ArrayReader_next, []) = (Inl (ParseError (''skipString: Expected 'S'' @ [CHR 0x27])), (ArrayReader_next, [])) \<and>
   getBinary (ArrayReader_next, []) = (Inl (ParseError (''getString: Expected 'B'' @ [CHR 0x27])), (ArrayReader_next, [])) \<and>
   skipBinary (ArrayReader_next, []) = (Inl (ParseError (''skipBinary: Expected 'B'' @ [CHR 0x27])), (ArrayReader_next, [])) \<and>
   getFloat (ArrayReader_next, []) = (Inl (ParseError (''nextFloat: Expected 'f'' @ [CHR 0x27])), (ArrayReader_next, [])) \<and>
   getDouble (ArrayReader_next, []) = (Inl (ParseError (''nextDouble: Expected 'd'' @ [CHR 0x27])), (ArrayReader_next, [])) \<and>
   getInt (ArrayReader_next, []) = (Inl (ParseError ''Unexpected EOF''), (ArrayReader_next, [])) \<and>
   getUInt (ArrayReader_next, []) = (Inl (ParseError ''Unexpected EOF''), (ArrayReader_next, [])) \<and>
   getArray cb (ArrayReader_next, []) = Some (Inl (ParseError ''Unexpected EOF''), (ArrayReader_next, [])) \<and>
   getObject cb (ArrayReader_next, []) = Some (Inl (ParseError ''Unexpected EOF''), (ArrayReader_next, [])) \<and>
   skip (ArrayReader_next, []) = (Inl (ParseError ''Unexpected EOF''), (ArrayReader_next, []))"
proof (intro conjI impI)
  assume r: "ready r"
  have nh: "\<not> ArrayReader_hasNext (r\<lparr>ready := False\<rparr>, [])"
    by (simp add: ArrayReader_hasNext_def)
  then show "\<not> ArrayReader_hasNext (r\<lparr>ready := False\<rparr>, [])" .
  from r show "readArray func (r, [0x5B]) = Some (Inl (ParseError ''Unexpected EOF''), (r, []))"
    by (simp add: readArray_def getArray_def getArray_enter_def ArrayReader_all_end [OF nh]
          getArray_leave_def)
  {
    assume "cb (r\<lparr>ready := False\<rparr>, []) = Some (Inr (), (r', []))"
    with r show "getArray cb (r, [0x5B]) = Some (Inl (ParseError ''Unexpected EOF''), (r'\<lparr>ready := True\<rparr>, []))"
      by (simp add: getArray_def getArray_enter_def getArray_leave_def)
  }
  {
    assume "cb (r\<lparr>ready := False\<rparr>, []) = Some (Inl e, s')"
    with r show "getArray cb (r, [0x5B]) = Some (Inl e, s')"
      by (simp add: getArray_def getArray_enter_def)
  }
qed (simp_all add: ArrayReader_next_def getType_def getBool_def getNil_def getString_def
       skipString_def getBinary_def skipBinary_def getFloat_def getDouble_def getInt_def
       getUInt_def getArray_def getArray_enter_def getObject_def getObject_enter_def skip.simps)

text \<open>A callback that reads nothing, and one that reads a boolean as the first element.\<close>

theorem truncated_array_parse_error_witness:
  "ready new_handle \<and>
   readArray (\<lambda>r s. None) (new_handle, [0x5B]) = Some (Inl (ParseError ''Unexpected EOF''), (new_handle, [])) \<and>
   return_at_once (new_handle\<lparr>ready := False\<rparr>, []) = Some (Inr (), (\<lparr>ready = False\<rparr>, [])) \<and>
   getArray return_at_once (new_handle, [0x5B]) = Some (Inl (ParseError ''Unexpected EOF''), (new_handle, [])) \<and>
   read_bool_element (new_handle\<lparr>ready := False\<rparr>, []) =
     Some (Inl (ParseError (''getBool: Expected 'T' or 'F'' @ [CHR 0x27])), (\<lparr>ready = False\<rparr>, [])) \<and>
   getArray read_bool_element (new_handle, [0x5B]) =
     Some (Inl (ParseError (''getBool: Expected 'T' or 'F'' @ [CHR 0x27])), (\<lparr>ready = False\<rparr>, []))"
proof -
  have a: "return_at_once (new_handle\<lparr>ready := False\<rparr>, []) = Some (Inr (), (\<lparr>ready = False\<rparr>, []))"
    by (simp add: return_at_once_def new_handle_def)
  have b: "read_bool_element (new_handle\<lparr>ready := False\<rparr>, []) =
     Some (Inl (ParseError (''getBool: Expected 'T' or 'F'' @ [CHR 0x27])), (\<lparr>ready = False\<rparr>, []))"
    by (simp add: read_bool_element_def on_handle_def ArrayReader_next_def getBool_def discard_def new_handle_def)
  from truncated_array_parse_error [OF ready_new_handle, of "\<lambda>r s. None" return_at_once "\<lparr>ready = False\<rparr>"]
    truncated_array_parse_error [OF ready_new_handle, of "\<lambda>r s. None" read_bool_element _
      "ParseError (''getBool: Expected 'T' or 'F'' @ [CHR 0x27])" "(\<lparr>ready = False\<rparr>, [])"]
    a b
  show ?thesis by (simp add: new_handle_def)
qed


section \<open>Skipping and decoding\<close>

lemma getType_same: "getType s = (Inr t, s1) \<Longrightarrow> s1 = s"
  by (erule getType_Inr) simp

lemma getInt_eq_getUInt: "getType s = (Inr Type_UINT, s1) \<Longrightarrow> getInt s = getUInt s"
proof -
  assume g: "getType s = (Inr Type_UINT, s1)"
  then obtain h c cs where s: "s = (h, c # cs)" "s1 = s" "ready h"
    by (rule getType_Inr)
  from g s have "c = 0x2B \<or> (c \<ge> 0x30 \<and> c \<le> 0x39)"
    by (auto simp: getType_def split: if_splits)
  with s show ?thesis by (auto simp: getInt_def getUInt_def)
qed

lemma skip_array_is_all:
  "ArrayReader_all (\<lambda>r t. Some (on_handle r skip t)) s = Some (skip_array_all s)"
proof (induction "length (snd s)" arbitrary: s rule: less_induct)
  case less
  show ?case
  proof (cases "ArrayReader_hasNext s")
    case False
    then show ?thesis
      by (subst ArrayReader_all.simps, subst skip_array_all.simps) simp
  next
    case True
    obtain r y where k: "skip (ArrayReader_next, snd s) = (r, y)"
      by (cases "skip (ArrayReader_next, snd s)")
    show ?thesis
    proof (cases r)
      case (Inl e)
      with True k show ?thesis
        by (subst ArrayReader_all.simps, subst skip_array_all.simps) (simp add: on_handle_def)
    next
      case (Inr u)
      with k skip_rest(1) [of "(ArrayReader_next, snd s)"] have "length (snd (fst s, snd y)) < length (snd s)"
        by simp
      from less [OF this] True k Inr show ?thesis
        by (subst ArrayReader_all.simps, subst skip_array_all.simps) (simp add: on_handle_def)
    qed
  qed
qed

lemma skip_object_is_all:
  "ObjectReader_all (\<lambda>key r t. Some (on_handle r skip t)) s = Some (skip_object_all s)"
proof (induction "length (snd s)" arbitrary: s rule: less_induct)
  case less
  show ?case
  proof (cases "ObjectReader_hasNext s")
    case False
    then show ?thesis
      by (subst ObjectReader_all.simps, subst skip_object_all.simps) simp
  next
    case True
    obtain r y where n: "ObjectReader_next s = (r, y)" by (cases "ObjectReader_next s")
    with rest_ObjectReader_next [of s] have ly: "length (snd y) \<le> length (snd s)" by simp
    show ?thesis
    proof (cases r)
      case (Inl e)
      with True n show ?thesis
        by (subst ObjectReader_all.simps, subst skip_object_all.simps) simp
    next
      case (Inr kv)
      obtain key val where kv: "kv = (key, val)" by (cases kv)
      obtain r2 y2 where k: "skip (val, snd y) = (r2, y2)" by (cases "skip (val, snd y)")
      show ?thesis
      proof (cases r2)
        case (Inl e)
        with True n \<open>r = Inr kv\<close> kv k show ?thesis
          by (subst ObjectReader_all.simps, subst skip_object_all.simps) (simp add: on_handle_def)
      next
        case (Inr u)
        with k skip_rest(1) [of "(val, snd y)"] ly have "length (snd (fst y, snd y2)) < length (snd s)"
          by simp
        from less [OF this] True n \<open>r = Inr kv\<close> kv k Inr show ?thesis
          by (subst ObjectReader_all.simps, subst skip_object_all.simps) (simp add: on_handle_def)
      qed
    qed
  qed
qed

lemma skip_is_readArray:
  "getType s = (Inr Type_ARRAY, s1) \<Longrightarrow>
   readArray (\<lambda>r t. Some (on_handle r skip t)) s = Some (skip s)"
proof -
  assume g: "getType s = (Inr Type_ARRAY, s1)"
  then obtain h c cs where s: "s = (h, c # cs)" "s1 = s" "ready h"
    by (rule getType_Inr)
  from g s show ?thesis
    by (subst skip.simps)
       (auto simp: readArray_def getArray_def skip_array_is_all split: prod.splits sum.splits)
qed

lemma skip_is_readObject:
  "getType s = (Inr Type_OBJECT, s1) \<Longrightarrow>
   readObject (\<lambda>key r t. Some (on_handle r skip t)) s = Some (skip s)"
proof -
  assume g: "getType s = (Inr Type_OBJECT, s1)"
  then obtain h c cs where s: "s = (h, c # cs)" "s1 = s" "ready h"
    by (rule getType_Inr)
  from g s show ?thesis
    by (subst skip.simps)
       (auto simp: readObject_def getObject_def skip_object_is_all split: prod.splits sum.splits)
qed

lemma nested_decode:
  "decode (new_handle, nested_document) =
     (Inr (Array [Bool True, Object [([0x78], Array [Int64 (- 66), String [0x68, 0x69]])], Binary [0x00, 0x5D]]),
      (new_handle, [0x4E]))"
  by (simp add: nested_document_def decode.simps decode_array_all.simps decode_object_all.simps
        getType_def getBool_def getArray_enter_def getArray_leave_def getObject_enter_def
        getObject_leave_def ArrayReader_hasNext_def ArrayReader_next_def ObjectReader_hasNext_def
        ObjectReader_next_def ObjectReader_next_loop.simps getInt_def getString_def
        getString_loop.simps getBinary_def getBinary_loop_eq nextLEB128_def nextLEB128_loop.simps
        mapR_def Let_def new_handle_def)


text \<open>
  C4. On every input \<^verbatim>\<open>skip\<close> ends as the full decoding ends: with the same error, or with
  success, and in both cases with the same handle and the same unread input. So after a
  value that decodes, \<^verbatim>\<open>skip\<close> leaves the cursor where \<open>decode\<close> leaves it. Type by type,
  \<^verbatim>\<open>skip\<close> is the \<^verbatim>\<open>get\<close> routine of the type that \<^verbatim>\<open>getType\<close> reports with the value
  dropped (\<^verbatim>\<open>getInt\<close> as well as \<^verbatim>\<open>getUInt\<close> where the tag is a digit or \<^verbatim>\<open>'+'\<close>), and
  \<^verbatim>\<open>readArray\<close> or \<^verbatim>\<open>readObject\<close> with the callback that decodes each element in full.
\<close>

theorem skip_equivalence:
  "skip s = discard (decode s) \<and>
   (decode s = (Inr v, s') \<longrightarrow> skip s = (Inr (), s')) \<and>
   (getType s = (Inr Type_BOOL, s1) \<longrightarrow> skip s = discard (getBool s)) \<and>
   (getType s = (Inr Type_NIL, s1) \<longrightarrow> skip s = getNil s) \<and>
   (getType s = (Inr Type_STRING, s1) \<longrightarrow> skip s = discard (getString s)) \<and>
   (getType s = (Inr Type_BINARY, s1) \<longrightarrow> skip s = discard (getBinary s)) \<and>
   (getType s = (Inr Type_FLOAT, s1) \<longrightarrow> skip s = discard (getFloat s)) \<and>
   (getType s = (Inr Type_DOUBLE, s1) \<longrightarrow> skip s = discard (getDouble s)) \<and>
   (getType s = (Inr Type_INT, s1) \<longrightarrow> skip s = discard (getInt s)) \<and>
   (getType s = (Inr Type_UINT, s1) \<longrightarrow> skip s = discard (getUInt s) \<and> skip s = discard (getInt s)) \<and>
   (getType s = (Inr Type_ARRAY, s1) \<longrightarrow>
      readArray (\<lambda>r t. Some (on_handle r (\<lambda>u. discard (decode u)) t)) s = Some (skip s)) \<and>
   (getType s = (Inr Type_OBJECT, s1) \<longrightarrow>
      readObject (\<lambda>key r t. Some (on_handle r (\<lambda>u. discard (decode u)) t)) s = Some (skip s))"
proof -
  have eq: "skip s = discard (decode s)" for s
    by (simp add: decode_skip(1))
  have fn: "(\<lambda>u. discard (decode u)) = skip"
    by (rule ext) (simp add: eq)
  have scalar: "skip s = discard (getBool s)" if "getType s = (Inr Type_BOOL, s1)" for s1
    using that getType_same [OF that] by (subst skip.simps) simp
  show ?thesis
  proof (intro conjI impI)
    show "skip s = discard (decode s)" by (rule eq)
    show "skip s = (Inr (), s')" if "decode s = (Inr v, s')"
      using that by (simp add: eq discard_def)
    show "skip s = discard (getBool s)" if "getType s = (Inr Type_BOOL, s1)"
      using that by (rule scalar)
    show "skip s = getNil s" if "getType s = (Inr Type_NIL, s1)"
      using that getType_same [OF that] by (subst skip.simps) simp
    show "skip s = discard (getString s)" if "getType s = (Inr Type_STRING, s1)"
    proof -
      from that obtain h c cs where "s = (h, c # cs)" "s1 = s" "ready h" "c = 0x53"
        by (rule getType_tag) simp
      with that show ?thesis by (subst skip.simps) (simp add: discard_getString)
    qed
    show "skip s = discard (getBinary s)" if "getType s = (Inr Type_BINARY, s1)"
    proof -
      from that obtain h c cs where "s = (h, c # cs)" "s1 = s" "ready h" "c = 0x42"
        by (rule getType_tag) simp
      with that show ?thesis by (subst skip.simps) (simp add: discard_getBinary)
    qed
    show "skip s = discard (getFloat s)" if "getType s = (Inr Type_FLOAT, s1)"
      using that getType_same [OF that] by (subst skip.simps) simp
    show "skip s = discard (getDouble s)" if "getType s = (Inr Type_DOUBLE, s1)"
      using that getType_same [OF that] by (subst skip.simps) simp
    show "skip s = discard (getInt s)" if "getType s = (Inr Type_INT, s1)"
      using that getType_same [OF that] by (subst skip.simps) simp
    show u: "skip s = discard (getUInt s)" if "getType s = (Inr Type_UINT, s1)"
      using that getType_same [OF that] by (subst skip.simps) simp
    show "skip s = discard (getInt s)" if "getType s = (Inr Type_UINT, s1)"
      using u [OF that] getInt_eq_getUInt [OF that] by simp
    show "readArray (\<lambda>r t. Some (on_handle r (\<lambda>u. discard (decode u)) t)) s = Some (skip s)"
      if "getType s = (Inr Type_ARRAY, s1)"
      using skip_is_readArray [OF that] by (simp only: fn)
    show "readObject (\<lambda>key r t. Some (on_handle r (\<lambda>u. discard (decode u)) t)) s = Some (skip s)"
      if "getType s = (Inr Type_OBJECT, s1)"
      using skip_is_readObject [OF that] by (simp only: fn)
  qed
qed

text \<open>The nested document, and one value of every other type.\<close>

theorem skip_equivalence_witness:
  "decode (new_handle, nested_document) =
     (Inr (Array [Bool True, Object [([0x78], Array [Int64 (- 66), String [0x68, 0x69]])], Binary [0x00, 0x5D]]),
      (new_handle, [0x4E])) \<and>
   skip (new_handle, nested_document) = (Inr (), (new_handle, [0x4E])) \<and>
   getType (new_handle, nested_document) = (Inr Type_ARRAY, (new_handle, nested_document)) \<and>
   readArray (\<lambda>r t. Some (on_handle r (\<lambda>u. discard (decode u)) t)) (new_handle, nested_document) =
     Some (Inr (), (new_handle, [0x4E])) \<and>
   getType (new_handle, [0x54]) = (Inr Type_BOOL, (new_handle, [0x54])) \<and>
   skip (new_handle, [0x54]) = (Inr (), (new_handle, [])) \<and>
   getType (new_handle, [0x4E]) = (Inr Type_NIL, (new_handle, [0x4E])) \<and>
   skip (new_handle, [0x4E]) = (Inr (), (new_handle, [])) \<and>
   getType (new_handle, [0x53, 0x68, 0x69, 0x00]) = (Inr Type_STRING, (new_handle, [0x53, 0x68, 0x69, 0x00])) \<and>
   skip (new_handle, [0x53, 0x68, 0x69, 0x00]) = (Inr (), (new_handle, [])) \<and>
   getType (new_handle, [0x42, 0x02, 0x00, 0x5D]) = (Inr Type_BINARY, (new_handle, [0x42, 0x02, 0x00, 0x5D])) \<and>
   skip (new_handle, [0x42, 0x02, 0x00, 0x5D]) = (Inr (), (new_handle, [])) \<and>
   getType (new_handle, [0x66, 0x00, 0x00, 0x80, 0x7f]) = (Inr Type_FLOAT, (new_handle, [0x66, 0x00, 0x00, 0x80, 0x7f])) \<and>
   skip (new_handle, [0x66, 0x00, 0x00, 0x80, 0x7f]) = (Inr (), (new_handle, [])) \<and>
   getType (new_handle, [0x64, 0x00, 0x00, 0x00, 0x00, 0x00, 0x00, 0x24, 0x40]) =
     (Inr Type_DOUBLE, (new_handle, [0x64, 0x00, 0x00, 0x00, 0x00, 0x00, 0x00, 0x24, 0x40])) \<and>
   skip (new_handle, [0x64, 0x00, 0x00, 0x00, 0x00, 0x00, 0x00, 0x24, 0x40]) = (Inr (), (new_handle, [])) \<and>
   getType (new_handle, [0x2D, 0x42]) = (Inr Type_INT, (new_handle, [0x2D, 0x42])) \<and>
   skip (new_handle, [0x2D, 0x42]) = (Inr (), (new_handle, [])) \<and>
   getType (new_handle, [0x2B, 0x0A]) = (Inr Type_UINT, (new_handle, [0x2B, 0x0A])) \<and>
   skip (new_handle, [0x2B, 0x0A]) = (Inr (), (new_handle, [])) \<and>
   getType (new_handle, [0x7B, 0x78, 0x00, 0x32, 0x7D]) = (Inr Type_OBJECT, (new_handle, [0x7B, 0x78, 0x00, 0x32, 0x7D])) \<and>
   readObject (\<lambda>key r t. Some (on_handle r (\<lambda>u. discard (decode u)) t)) (new_handle, [0x7B, 0x78, 0x00, 0x32, 0x7D]) =
     Some (Inr (), (new_handle, []))"
proof -
  note defs = getType_def getBool_def getNil_def getString_def getString_loop.simps getBinary_def
    getBinary_loop_eq getFloat_def getDouble_def getInt_def getUInt_def nextLEB128_def
    nextLEB128_loop.simps bindE_def Let_def discard_def new_handle_def
  have d: "decode (new_handle, nested_document) =
     (Inr (Array [Bool True, Object [([0x78], Array [Int64 (- 66), String [0x68, 0x69]])], Binary [0x00, 0x5D]]),
      (new_handle, [0x4E]))"
    by (rule nested_decode)
  have ta: "getType (new_handle, nested_document) = (Inr Type_ARRAY, (new_handle, nested_document))"
    by (simp add: nested_document_def getType_def new_handle_def)
  from skip_equivalence [of "(new_handle, nested_document)"
      "Array [Bool True, Object [([0x78], Array [Int64 (- 66), String [0x68, 0x69]])], Binary [0x00, 0x5D]]"
      "(new_handle, [0x4E])" "(new_handle, nested_document)"] d ta
  have 1: "skip (new_handle, nested_document) = (Inr (), (new_handle, [0x4E]))"
    and 2: "readArray (\<lambda>r t. Some (on_handle r (\<lambda>u. discard (decode u)) t)) (new_handle, nested_document) =
     Some (Inr (), (new_handle, [0x4E]))"
    by (simp_all add: discard_def)
  have tb: "getType (new_handle, [0x54]) = (Inr Type_BOOL, (new_handle, [0x54]))"
    by (simp add: defs)
  from skip_equivalence [of "(new_handle, [0x54])" _ _ "(new_handle, [0x54])"] tb
  have "skip (new_handle, [0x54]) = discard (getBool (new_handle, [0x54]))" by blast
  then have 3: "skip (new_handle, [0x54]) = (Inr (), (new_handle, []))"
    by (simp add: defs)
  have tn: "getType (new_handle, [0x4E]) = (Inr Type_NIL, (new_handle, [0x4E]))"
    by (simp add: defs)
  from skip_equivalence [of "(new_handle, [0x4E])" _ _ "(new_handle, [0x4E])"] tn
  have "skip (new_handle, [0x4E]) = getNil (new_handle, [0x4E])" by blast
  then have 4: "skip (new_handle, [0x4E]) = (Inr (), (new_handle, []))"
    by (simp add: defs)
  have ts: "getType (new_handle, [0x53, 0x68, 0x69, 0x00]) = (Inr Type_STRING, (new_handle, [0x53, 0x68, 0x69, 0x00]))"
    by (simp add: defs)
  from skip_equivalence [of "(new_handle, [0x53, 0x68, 0x69, 0x00])" _ _ "(new_handle, [0x53, 0x68, 0x69, 0x00])"] ts
  have "skip (new_handle, [0x53, 0x68, 0x69, 0x00]) = discard (getString (new_handle, [0x53, 0x68, 0x69, 0x00]))" by blast
  then have 5: "skip (new_handle, [0x53, 0x68, 0x69, 0x00]) = (Inr (), (new_handle, []))"
    by (simp add: defs)
  have tbin: "getType (new_handle, [0x42, 0x02, 0x00, 0x5D]) = (Inr Type_BINARY, (new_handle, [0x42, 0x02, 0x00, 0x5D]))"
    by (simp add: defs)
  from skip_equivalence [of "(new_handle, [0x42, 0x02, 0x00, 0x5D])" _ _ "(new_handle, [0x42, 0x02, 0x00, 0x5D])"] tbin
  have "skip (new_handle, [0x42, 0x02, 0x00, 0x5D]) = discard (getBinary (new_handle, [0x42, 0x02, 0x00, 0x5D]))" by blast
  then have 6: "skip (new_handle, [0x42, 0x02, 0x00, 0x5D]) = (Inr (), (new_handle, []))"
    by (simp add: defs)
  have tf: "getType (new_handle, [0x66, 0x00, 0x00, 0x80, 0x7f]) = (Inr Type_FLOAT, (new_handle, [0x66, 0x00, 0x00, 0x80, 0x7f]))"
    by (simp add: defs)
  from skip_equivalence [of "(new_handle, [0x66, 0x00, 0x00, 0x80, 0x7f])" _ _ "(new_handle, [0x66, 0x00, 0x00, 0x80, 0x7f])"] tf
  have "skip (new_handle, [0x66, 0x00, 0x00, 0x80, 0x7f]) = discard (getFloat (new_handle, [0x66, 0x00, 0x00, 0x80, 0x7f]))" by blast
  then have 7: "skip (new_handle, [0x66, 0x00, 0x00, 0x80, 0x7f]) = (Inr (), (new_handle, []))"
    by (simp add: defs)
  have td: "getType (new_handle, [0x64, 0x00, 0x00, 0x00, 0x00, 0x00, 0x00, 0x24, 0x40]) =
     (Inr Type_DOUBLE, (new_handle, [0x64, 0x00, 0x00, 0x00, 0x00, 0x00, 0x00, 0x24, 0x40]))"
    by (simp add: defs)
  from skip_equivalence [of "(new_handle, [0x64, 0x00, 0x00, 0x00, 0x00, 0x00, 0x00, 0x24, 0x40])" _ _
      "(new_handle, [0x64, 0x00, 0x00, 0x00, 0x00, 0x00, 0x00, 0x24, 0x40])"] td
  have "skip (new_handle, [0x64, 0x00, 0x00, 0x00, 0x00, 0x00, 0x00, 0x24, 0x40]) = discard (getDouble (new_handle, [0x64, 0x00, 0x00, 0x00, 0x00, 0x00, 0x00, 0x24, 0x40]))" by blast
  then have 8: "skip (new_handle, [0x64, 0x00, 0x00, 0x00, 0x00, 0x00, 0x00, 0x24, 0x40]) = (Inr (), (new_handle, []))"
    by (simp add: defs)
  have ti: "getType (new_handle, [0x2D, 0x42]) = (Inr Type_INT, (new_handle, [0x2D, 0x42]))"
    by (simp add: defs)
  from skip_equivalence [of "(new_handle, [0x2D, 0x42])" _ _ "(new_handle, [0x2D, 0x42])"] ti
  have "skip (new_handle, [0x2D, 0x42]) = discard (getInt (new_handle, [0x2D, 0x42]))" by blast
  then have 9: "skip (new_handle, [0x2D, 0x42]) = (Inr (), (new_handle, []))"
    by (simp add: defs)
  have tu: "getType (new_handle, [0x2B, 0x0A]) = (Inr Type_UINT, (new_handle, [0x2B, 0x0A]))"
    by (simp add: defs)
  from skip_equivalence [of "(new_handle, [0x2B, 0x0A])" _ _ "(new_handle, [0x2B, 0x0A])"] tu
  have "skip (new_handle, [0x2B, 0x0A]) = discard (getUInt (new_handle, [0x2B, 0x0A]))" by blast
  then have 10: "skip (new_handle, [0x2B, 0x0A]) = (Inr (), (new_handle, []))"
    by (simp add: defs)
  have tob: "getType (new_handle, [0x7B, 0x78, 0x00, 0x32, 0x7D]) = (Inr Type_OBJECT, (new_handle, [0x7B, 0x78, 0x00, 0x32, 0x7D]))"
    by (simp add: defs)
  have "skip (new_handle, [0x7B, 0x78, 0x00, 0x32, 0x7D]) = (Inr (), (new_handle, []))"
    by (simp add: skip.simps skip_object_all.simps defs getObject_enter_def getObject_leave_def
          ObjectReader_hasNext_def ObjectReader_next_def ObjectReader_next_loop.simps)
  with skip_equivalence [of "(new_handle, [0x7B, 0x78, 0x00, 0x32, 0x7D])" _ _ "(new_handle, [0x7B, 0x78, 0x00, 0x32, 0x7D])"] tob
  have 11: "readObject (\<lambda>key r t. Some (on_handle r (\<lambda>u. discard (decode u)) t)) (new_handle, [0x7B, 0x78, 0x00, 0x32, 0x7D]) =
     Some (Inr (), (new_handle, []))"
    by simp
  from d ta 1 2 tb 3 tn 4 ts 5 tbin 6 tf 7 td 8 ti 9 tu 10 tob 11 show ?thesis
    by (intro conjI)
qed


end
